theory Spec2Isabelle
  imports Main
begin

section \<open>The IRQ bypass manager: data model\<close>

text \<open>
  The manager (the C file with \<^verbatim>\<open>__connect\<close>, \<^verbatim>\<open>__disconnect\<close> and the four exported
  \<^verbatim>\<open>irq_bypass_*\<close> functions) keeps two intrusive lists of caller-owned descriptors.
  A descriptor is referred to by its address; two descriptors are the same object iff their
  addresses are equal. The token is a \<^verbatim>\<open>void *\<close>; \<open>0\<close> stands for \<^verbatim>\<open>NULL\<close>.
\<close>

type_synonym addr = nat
type_synonym token = nat

text \<open>
  The callbacks are code of the callers. A callback is a function on an abstract outside
  world \<open>'w\<close>; the two \<^verbatim>\<open>int\<close>-valued ones also return their result. A callback slot that
  is \<^verbatim>\<open>NULL\<close> is \<open>None\<close>. Callbacks receive the pointers the C code passes them.
  They do not write to the descriptors or to the manager's lists (a callback that re-enters
  the manager deadlocks on the mutex). The \<^verbatim>\<open>int\<close> results are only compared with \<open>0\<close> and
  handed back to the caller, never computed with, so they are integers here.
\<close>

record 'w irq_bypass_producer =
  p_token :: token
  p_stop :: "(addr \<Rightarrow> 'w \<Rightarrow> 'w) option"
  p_start :: "(addr \<Rightarrow> 'w \<Rightarrow> 'w) option"
  p_add_consumer :: "(addr \<Rightarrow> addr \<Rightarrow> 'w \<Rightarrow> int \<times> 'w) option"
  p_del_consumer :: "(addr \<Rightarrow> addr \<Rightarrow> 'w \<Rightarrow> 'w) option"

record 'w irq_bypass_consumer =
  c_token :: token
  c_stop :: "(addr \<Rightarrow> 'w \<Rightarrow> 'w) option"
  c_start :: "(addr \<Rightarrow> 'w \<Rightarrow> 'w) option"
  c_add_producer :: "(addr \<Rightarrow> addr \<Rightarrow> 'w \<Rightarrow> int \<times> 'w) option"
  c_del_producer :: "(addr \<Rightarrow> addr \<Rightarrow> 'w \<Rightarrow> 'w) option"

text \<open>
  The log of what a call did, oldest event first. \<open>Connect\<close> and \<open>Disconnect\<close> mark the
  entry into \<^verbatim>\<open>__connect\<close> and \<^verbatim>\<open>__disconnect\<close>; every other event is one callback
  invocation, the \<^verbatim>\<open>int\<close>-valued ones with the value they returned.
\<close>

datatype event =
    Connect addr addr
  | Disconnect addr addr
  | ProdStop addr
  | ConsStop addr
  | ProdAddConsumer addr addr int
  | ConsAddProducer addr addr int
  | ProdDelConsumer addr addr
  | ConsDelProducer addr addr
  | ConsStart addr
  | ProdStart addr

text \<open>
  The state: the descriptors in memory, the two lists (\<^verbatim>\<open>static LIST_HEAD(producers)\<close>,
  \<^verbatim>\<open>static LIST_HEAD(consumers)\<close>) as lists of addresses in list order, the module's
  liveness and the references taken on it through this file, the outside world and the log.
  The mutex is not modelled: every call runs alone from start to end.
\<close>

record 'w manager =
  prod_mem :: "addr \<Rightarrow> 'w irq_bypass_producer"
  cons_mem :: "addr \<Rightarrow> 'w irq_bypass_consumer"
  producers :: "addr list"
  consumers :: "addr list"
  module_live :: bool
  module_refs :: int
  world :: 'w
  trace :: "event list"

text \<open>
  A call leaves the C language's defined behaviour when it calls a mandatory callback that is
  \<^verbatim>\<open>NULL\<close>. A fault carries the state reached when it happened.
\<close>

datatype fault_kind = Null_call

type_synonym 'w fault = "fault_kind \<times> 'w manager"

text \<open>
  Modelled from the spec: the error kinds InvalidArgument, Unavailable and AlreadyRegistered
  (Busy) are the errno constants of the kernel's errno-base.h, a header outside the manager's
  own file; the code returns them negated.
\<close>

definition EINVAL :: int where
  "EINVAL = 22"

definition ENODEV :: int where
  "ENODEV = 19"

definition EBUSY :: int where
  "EBUSY = 16"

section \<open>Kernel primitives the file uses\<close>

text \<open>
  Modelled from the spec: the liveness guard (\<^verbatim>\<open>try_module_get(THIS_MODULE)\<close> and
  \<^verbatim>\<open>module_put(THIS_MODULE)\<close>, kernel primitives defined outside the manager's own file).
  Acquiring fails when the manager is shutting down and takes one reference otherwise;
  releasing gives one reference back.
\<close>

definition try_module_get :: "'w manager \<Rightarrow> 'w manager option" where
  "try_module_get s =
     (if module_live s then Some (s\<lparr>module_refs := module_refs s + 1\<rparr>) else None)"

definition module_put :: "'w manager \<Rightarrow> 'w manager" where
  "module_put s = s\<lparr>module_refs := module_refs s - 1\<rparr>"

text \<open>
  Modelled from the spec: \<^verbatim>\<open>list_add\<close> and \<^verbatim>\<open>list_del\<close> of the kernel's list.h, defined
  outside the manager's own file. Registration inserts the entry into its set and
  unregistration removes it; \<^verbatim>\<open>list_add\<close> links the new node right after the list head, so
  the newest entry is the first one a \<^verbatim>\<open>list_for_each_entry\<close> loop visits.
  \<^verbatim>\<open>list_del\<close> removes the entry from the set; removing an entry that is not in the set
  leaves the set as it is.
\<close>

definition list_add :: "addr \<Rightarrow> addr list \<Rightarrow> addr list" where
  "list_add a xs = a # xs"

definition list_del :: "addr \<Rightarrow> addr list \<Rightarrow> addr list" where
  "list_del a xs = remove1 a xs"

section \<open>Callback invocation\<close>

definition log_event :: "event \<Rightarrow> 'w manager \<Rightarrow> 'w manager" where
  "log_event e s = s\<lparr>trace := trace s @ [e]\<rparr>"

definition call_void :: "event \<Rightarrow> ('w \<Rightarrow> 'w) \<Rightarrow> 'w manager \<Rightarrow> 'w manager" where
  "call_void e f s = s\<lparr>world := f (world s), trace := trace s @ [e]\<rparr>"

definition call_int ::
  "(int \<Rightarrow> event) \<Rightarrow> ('w \<Rightarrow> int \<times> 'w) \<Rightarrow> 'w manager \<Rightarrow> int \<times> 'w manager" where
  "call_int e f s =
     (case f (world s) of (ret, w) \<Rightarrow> (ret, s\<lparr>world := w, trace := trace s @ [e ret]\<rparr>))"

text \<open>\<^verbatim>\<open>if (prod->stop) prod->stop(prod);\<close> and its three siblings.\<close>

definition prod_stop :: "addr \<Rightarrow> 'w manager \<Rightarrow> 'w manager" where
  "prod_stop producer s =
     (case p_stop (prod_mem s producer) of
        None \<Rightarrow> s
      | Some f \<Rightarrow> call_void (ProdStop producer) (f producer) s)"

definition cons_stop :: "addr \<Rightarrow> 'w manager \<Rightarrow> 'w manager" where
  "cons_stop consumer s =
     (case c_stop (cons_mem s consumer) of
        None \<Rightarrow> s
      | Some f \<Rightarrow> call_void (ConsStop consumer) (f consumer) s)"

definition cons_start :: "addr \<Rightarrow> 'w manager \<Rightarrow> 'w manager" where
  "cons_start consumer s =
     (case c_start (cons_mem s consumer) of
        None \<Rightarrow> s
      | Some f \<Rightarrow> call_void (ConsStart consumer) (f consumer) s)"

definition prod_start :: "addr \<Rightarrow> 'w manager \<Rightarrow> 'w manager" where
  "prod_start producer s =
     (case p_start (prod_mem s producer) of
        None \<Rightarrow> s
      | Some f \<Rightarrow> call_void (ProdStart producer) (f producer) s)"

text \<open>\<^verbatim>\<open>if (prod->del_consumer) prod->del_consumer(prod, cons);\<close>\<close>

definition prod_del_consumer :: "addr \<Rightarrow> addr \<Rightarrow> 'w manager \<Rightarrow> 'w manager" where
  "prod_del_consumer producer consumer s =
     (case p_del_consumer (prod_mem s producer) of
        None \<Rightarrow> s
      | Some f \<Rightarrow> call_void (ProdDelConsumer producer consumer) (f producer consumer) s)"

section \<open>Connect and disconnect\<close>

text \<open>
  \<^verbatim>\<open>__connect\<close> from \<^verbatim>\<open>ret = cons->add_producer(cons, prod);\<close> to its last line: the
  mandatory call, the rollback of the producer side when it failed, and the restart.
\<close>

definition connect_add_producer ::
  "addr \<Rightarrow> addr \<Rightarrow> 'w manager \<Rightarrow> 'w fault + (int \<times> 'w manager)" where
  "connect_add_producer producer consumer s =
     (case c_add_producer (cons_mem s consumer) of
        None \<Rightarrow> Inl (Null_call, s)
      | Some f \<Rightarrow>
          (case call_int (ConsAddProducer consumer producer) (f consumer producer) s of
             (ret, s1) \<Rightarrow>
               Inr (ret,
                 prod_start producer
                   (cons_start consumer
                      (if ret \<noteq> 0 then prod_del_consumer producer consumer s1 else s1)))))"

text \<open>
  \<^verbatim>\<open>__connect\<close> (an Isabelle name cannot start with an underscore, and the C parameters
  \<^verbatim>\<open>prod\<close> and \<^verbatim>\<open>cons\<close> are \<open>producer\<close> and \<open>consumer\<close> here). Both sides are
  stopped; \<^verbatim>\<open>prod->add_consumer\<close>, when present, is called, and a non-zero result is
  returned at once (\<^verbatim>\<open>if (ret) return ret;\<close>); otherwise the function goes on as above.
\<close>

definition connect :: "addr \<Rightarrow> addr \<Rightarrow> 'w manager \<Rightarrow> 'w fault + (int \<times> 'w manager)" where
  "connect producer consumer s =
     (let s1 = cons_stop consumer (prod_stop producer (log_event (Connect producer consumer) s)) in
      case p_add_consumer (prod_mem s1 producer) of
        None \<Rightarrow> connect_add_producer producer consumer s1
      | Some f \<Rightarrow>
          (case call_int (ProdAddConsumer producer consumer) (f producer consumer) s1 of
             (ret, s2) \<Rightarrow>
               if ret \<noteq> 0 then Inr (ret, s2) else connect_add_producer producer consumer s2))"

text \<open>\<^verbatim>\<open>__disconnect\<close>: stop both, unwire the consumer then the producer, start both.\<close>

definition disconnect :: "addr \<Rightarrow> addr \<Rightarrow> 'w manager \<Rightarrow> 'w fault + 'w manager" where
  "disconnect producer consumer s =
     (let s1 = cons_stop consumer (prod_stop producer (log_event (Disconnect producer consumer) s)) in
      case c_del_producer (cons_mem s1 consumer) of
        None \<Rightarrow> Inl (Null_call, s1)
      | Some f \<Rightarrow>
          Inr (prod_start producer
                 (cons_start consumer
                    (prod_del_consumer producer consumer
                       (call_void (ConsDelProducer consumer producer) (f consumer producer) s1)))))"

section \<open>The four exported operations\<close>

text \<open>
  Each \<^verbatim>\<open>list_for_each_entry\<close> loop leaves at its first hit, so it is \<open>find\<close> on the list
  in list order. \<^verbatim>\<open>might_sleep()\<close> does nothing here. Both unregister functions hand
  their own argument to \<^verbatim>\<open>__disconnect\<close> and to \<^verbatim>\<open>list_del\<close>, not the entry \<^verbatim>\<open>tmp\<close> that
  the search found; the two \<^verbatim>\<open>module_put\<close> follow whenever the search found an entry.
\<close>

definition irq_bypass_register_producer ::
  "addr \<Rightarrow> 'w manager \<Rightarrow> 'w fault + (int \<times> 'w manager)" where
  "irq_bypass_register_producer producer s =
     (if p_token (prod_mem s producer) = 0 then Inr (- EINVAL, s)
      else case try_module_get s of
        None \<Rightarrow> Inr (- ENODEV, s)
      | Some s1 \<Rightarrow>
          (case find (\<lambda>tmp. p_token (prod_mem s1 tmp) = p_token (prod_mem s1 producer))
                  (producers s1) of
             Some tmp \<Rightarrow> Inr (- EBUSY, module_put s1)
           | None \<Rightarrow>
               (case find (\<lambda>consumer. c_token (cons_mem s1 consumer) = p_token (prod_mem s1 producer))
                       (consumers s1) of
                  None \<Rightarrow> Inr (0, s1\<lparr>producers := list_add producer (producers s1)\<rparr>)
                | Some consumer \<Rightarrow>
                    (case connect producer consumer s1 of
                       Inl flt \<Rightarrow> Inl flt
                     | Inr (ret, s2) \<Rightarrow>
                         if ret \<noteq> 0 then Inr (ret, module_put s2)
                         else Inr (0, s2\<lparr>producers := list_add producer (producers s2)\<rparr>)))))"

definition irq_bypass_unregister_producer :: "addr \<Rightarrow> 'w manager \<Rightarrow> 'w fault + 'w manager" where
  "irq_bypass_unregister_producer producer s =
     (if p_token (prod_mem s producer) = 0 then Inr s
      else case try_module_get s of
        None \<Rightarrow> Inr s
      | Some s1 \<Rightarrow>
          (case find (\<lambda>tmp. p_token (prod_mem s1 tmp) = p_token (prod_mem s1 producer))
                  (producers s1) of
             None \<Rightarrow> Inr (module_put s1)
           | Some tmp \<Rightarrow>
               (case (case find (\<lambda>consumer. c_token (cons_mem s1 consumer) = p_token (prod_mem s1 producer))
                             (consumers s1) of
                        None \<Rightarrow> Inr s1
                      | Some consumer \<Rightarrow> disconnect producer consumer s1) of
                  Inl flt \<Rightarrow> Inl flt
                | Inr s2 \<Rightarrow>
                    Inr (module_put (module_put
                           (s2\<lparr>producers := list_del producer (producers s2)\<rparr>))))))"

definition irq_bypass_register_consumer ::
  "addr \<Rightarrow> 'w manager \<Rightarrow> 'w fault + (int \<times> 'w manager)" where
  "irq_bypass_register_consumer consumer s =
     (if c_token (cons_mem s consumer) = 0 \<or> c_add_producer (cons_mem s consumer) = None
         \<or> c_del_producer (cons_mem s consumer) = None
      then Inr (- EINVAL, s)
      else case try_module_get s of
        None \<Rightarrow> Inr (- ENODEV, s)
      | Some s1 \<Rightarrow>
          (case find (\<lambda>tmp. c_token (cons_mem s1 tmp) = c_token (cons_mem s1 consumer) \<or> tmp = consumer)
                  (consumers s1) of
             Some tmp \<Rightarrow> Inr (- EBUSY, module_put s1)
           | None \<Rightarrow>
               (case find (\<lambda>producer. p_token (prod_mem s1 producer) = c_token (cons_mem s1 consumer))
                       (producers s1) of
                  None \<Rightarrow> Inr (0, s1\<lparr>consumers := list_add consumer (consumers s1)\<rparr>)
                | Some producer \<Rightarrow>
                    (case connect producer consumer s1 of
                       Inl flt \<Rightarrow> Inl flt
                     | Inr (ret, s2) \<Rightarrow>
                         if ret \<noteq> 0 then Inr (ret, module_put s2)
                         else Inr (0, s2\<lparr>consumers := list_add consumer (consumers s2)\<rparr>)))))"

definition irq_bypass_unregister_consumer :: "addr \<Rightarrow> 'w manager \<Rightarrow> 'w fault + 'w manager" where
  "irq_bypass_unregister_consumer consumer s =
     (if c_token (cons_mem s consumer) = 0 then Inr s
      else case try_module_get s of
        None \<Rightarrow> Inr s
      | Some s1 \<Rightarrow>
          (case find (\<lambda>tmp. tmp = consumer) (consumers s1) of
             None \<Rightarrow> Inr (module_put s1)
           | Some tmp \<Rightarrow>
               (case (case find (\<lambda>producer. p_token (prod_mem s1 producer) = c_token (cons_mem s1 consumer))
                             (producers s1) of
                        None \<Rightarrow> Inr s1
                      | Some producer \<Rightarrow> disconnect producer consumer s1) of
                  Inl flt \<Rightarrow> Inl flt
                | Inr s2 \<Rightarrow>
                    Inr (module_put (module_put
                           (s2\<lparr>consumers := list_del consumer (consumers s2)\<rparr>))))))"

section \<open>Sequences of calls\<close>

datatype api_call =
    Register_producer addr
  | Unregister_producer addr
  | Register_consumer addr
  | Unregister_consumer addr

text \<open>One call of the interface; the \<^verbatim>\<open>int\<close> a registration returns is dropped here.\<close>

definition api_step :: "api_call \<Rightarrow> 'w manager \<Rightarrow> 'w fault + 'w manager" where
  "api_step c s =
     (case c of
        Register_producer p \<Rightarrow>
          (case irq_bypass_register_producer p s of Inl flt \<Rightarrow> Inl flt | Inr (ret, s') \<Rightarrow> Inr s')
      | Unregister_producer p \<Rightarrow> irq_bypass_unregister_producer p s
      | Register_consumer c \<Rightarrow>
          (case irq_bypass_register_consumer c s of Inl flt \<Rightarrow> Inl flt | Inr (ret, s') \<Rightarrow> Inr s')
      | Unregister_consumer c \<Rightarrow> irq_bypass_unregister_consumer c s)"

fun run :: "api_call list \<Rightarrow> 'w manager \<Rightarrow> 'w fault + 'w manager" where
  "run [] s = Inr s"
| "run (c # cs) s = (case api_step c s of Inl flt \<Rightarrow> Inl flt | Inr s' \<Rightarrow> run cs s')"

text \<open>The manager right after module load: both lists empty, no reference taken.\<close>

definition registry_empty :: "'w manager \<Rightarrow> bool" where
  "registry_empty s \<longleftrightarrow> producers s = [] \<and> consumers s = [] \<and> module_refs s = 0"

section \<open>Reading the log\<close>

text \<open>What a call added to the log, given the states before and after it.\<close>

definition new_events :: "'w manager \<Rightarrow> 'w manager \<Rightarrow> event list" where
  "new_events s s' = drop (length (trace s)) (trace s')"

fun add_result :: "event \<Rightarrow> int option" where
  "add_result (ProdAddConsumer p c r) = Some r"
| "add_result (ConsAddProducer c p r) = Some r"
| "add_result e = None"

text \<open>The first non-zero result among the add calls of a log; \<open>0\<close> when there is none.\<close>

fun first_error :: "event list \<Rightarrow> int" where
  "first_error [] = 0"
| "first_error (e # es) =
     (case add_result e of
        None \<Rightarrow> first_error es
      | Some r \<Rightarrow> if r \<noteq> 0 then r else first_error es)"

fun is_connect :: "event \<Rightarrow> bool" where
  "is_connect (Connect p c) = True"
| "is_connect e = False"


section \<open>Auxiliary notions for the proofs\<close>

text \<open>
  \<open>touched s s'\<close>: \<open>s'\<close> is \<open>s\<close> but for the outside world and a longer log. This is all a
  callback invocation does to the state; \<open>logged\<close> also names the events added.
\<close>

definition touched :: "'w manager \<Rightarrow> 'w manager \<Rightarrow> bool" where
  "touched s s' \<longleftrightarrow> (\<exists>w evs. s' = s\<lparr>world := w, trace := trace s @ evs\<rparr>)"

definition logged :: "'w manager \<Rightarrow> event list \<Rightarrow> 'w manager \<Rightarrow> bool" where
  "logged s evs s' \<longleftrightarrow> (\<exists>w. s' = s\<lparr>world := w, trace := trace s @ evs\<rparr>)"

text \<open>
  The events of the stop and start callbacks, which change no wiring; \<open>wiring\<close> is a log
  without them.
\<close>

fun quiet :: "event \<Rightarrow> bool" where
  "quiet (ProdStop p) = True"
| "quiet (ConsStop c) = True"
| "quiet (ConsStart c) = True"
| "quiet (ProdStart p) = True"
| "quiet e = False"

definition wiring :: "event list \<Rightarrow> event list" where
  "wiring evs = filter (\<lambda>e. \<not> quiet e) evs"

text \<open>
  What the rollback in \<^verbatim>\<open>__connect\<close> logs after \<^verbatim>\<open>add_producer\<close> returned \<open>r\<close>:
  \<^verbatim>\<open>if (ret && prod->del_consumer) prod->del_consumer(prod, cons);\<close>
\<close>

definition rollback :: "'w manager \<Rightarrow> addr \<Rightarrow> addr \<Rightarrow> int \<Rightarrow> event list" where
  "rollback s p c r =
     (if r \<noteq> 0 \<and> p_del_consumer (prod_mem s p) \<noteq> None then [ProdDelConsumer p c] else [])"

text \<open>
  The invariant of the registry: no descriptor is linked twice, tokens are unique within each
  list and never \<^verbatim>\<open>NULL\<close>, every registered consumer has its two mandatory callbacks, and
  a registry with an entry is live.
\<close>

definition registry_inv :: "'w manager \<Rightarrow> bool" where
  "registry_inv s \<longleftrightarrow>
     distinct (producers s)
     \<and> distinct (map (\<lambda>p. p_token (prod_mem s p)) (producers s))
     \<and> (\<forall>p \<in> set (producers s). p_token (prod_mem s p) \<noteq> 0)
     \<and> distinct (consumers s)
     \<and> distinct (map (\<lambda>c. c_token (cons_mem s c)) (consumers s))
     \<and> (\<forall>c \<in> set (consumers s). c_token (cons_mem s c) \<noteq> 0
            \<and> c_add_producer (cons_mem s c) \<noteq> None \<and> c_del_producer (cons_mem s c) \<noteq> None)
     \<and> (producers s \<noteq> [] \<or> consumers s \<noteq> [] \<longrightarrow> module_live s)"

text \<open>The state a sequence of calls ended in, and the fault that ended it, if any.\<close>

definition reached :: "'w fault + 'w manager \<Rightarrow> 'w manager" where
  "reached r = (case r of Inl (k, s) \<Rightarrow> s | Inr s \<Rightarrow> s)"

definition fault_of :: "'w fault + 'w manager \<Rightarrow> fault_kind option" where
  "fault_of r = (case r of Inl (k, s) \<Rightarrow> Some k | Inr s \<Rightarrow> None)"

section \<open>A concrete registry\<close>

text \<open>
  The outside world of the examples counts callback invocations. Producers 1 and 2 share
  token 7 and have every callback; producer 2's \<^verbatim>\<open>add_consumer\<close> fails with \<open>-5\<close>.
  Producer 8 has token 9 and no callback. Consumers 3, 4 and 5 have token 7; consumer 4's
  \<^verbatim>\<open>add_producer\<close> fails with \<open>-12\<close>, consumer 5 has no \<^verbatim>\<open>del_producer\<close>. Every other
  address holds a descriptor with a \<^verbatim>\<open>NULL\<close> token.
\<close>

definition tick :: "addr \<Rightarrow> nat \<Rightarrow> nat" where
  "tick a w = Suc w"

definition tick2 :: "addr \<Rightarrow> addr \<Rightarrow> nat \<Rightarrow> nat" where
  "tick2 a b w = Suc w"

definition answer :: "int \<Rightarrow> addr \<Rightarrow> addr \<Rightarrow> nat \<Rightarrow> int \<times> nat" where
  "answer r a b w = (r, Suc w)"

definition example_producer :: "addr \<Rightarrow> nat irq_bypass_producer" where
  "example_producer a =
     (if a = 1 \<or> a = 2 then
        \<lparr>p_token = 7, p_stop = Some tick, p_start = Some tick,
         p_add_consumer = Some (answer (if a = 2 then - 5 else 0)),
         p_del_consumer = Some tick2\<rparr>
      else
        \<lparr>p_token = (if a = 8 then 9 else 0), p_stop = None, p_start = None,
         p_add_consumer = None, p_del_consumer = None\<rparr>)"

definition example_consumer :: "addr \<Rightarrow> nat irq_bypass_consumer" where
  "example_consumer a =
     (if a = 3 \<or> a = 4 \<or> a = 5 then
        \<lparr>c_token = 7, c_stop = Some tick, c_start = Some tick,
         c_add_producer = Some (answer (if a = 4 then - 12 else 0)),
         c_del_producer = (if a = 5 then None else Some tick2)\<rparr>
      else
        \<lparr>c_token = 0, c_stop = None, c_start = None, c_add_producer = None,
         c_del_producer = None\<rparr>)"

definition example_manager :: "nat manager" where
  "example_manager =
     \<lparr>prod_mem = example_producer, cons_mem = example_consumer, producers = [], consumers = [],
      module_live = True, module_refs = 0, world = 0, trace = []\<rparr>"

text \<open>The registry after producer 1 registered, and after consumer 3 registered as well.\<close>

definition example_registered :: "nat manager" where
  "example_registered = example_manager\<lparr>producers := [1], module_refs := 1\<rparr>"

definition example_connected :: "nat manager" where
  "example_connected =
     example_manager\<lparr>producers := [1], consumers := [3], module_refs := 2, world := 6,
       trace := [Connect 1 3, ProdStop 1, ConsStop 3, ProdAddConsumer 1 3 0,
                 ConsAddProducer 3 1 0, ConsStart 3, ProdStart 1]\<rparr>"

text \<open>
  The registry after producer 1 registered and consumer 4 then tried to: the connect ran,
  \<^verbatim>\<open>add_producer\<close> failed, and only the outside world and the log differ.
\<close>

definition example_rejected :: "nat manager" where
  "example_rejected =
     example_registered\<lparr>world := 7,
       trace := [Connect 1 4, ProdStop 1, ConsStop 4, ProdAddConsumer 1 4 0,
                 ConsAddProducer 4 1 (- 12), ProdDelConsumer 1 4, ConsStart 4, ProdStart 1]\<rparr>"

text \<open>
  The connected registry after \<^verbatim>\<open>irq_bypass_unregister_producer\<close> was called on producer 2,
  which was never registered but carries the token of producer 1: both lists are as before,
  one module reference is gone, and \<^verbatim>\<open>__disconnect\<close> ran on producer 2 and consumer 3.
\<close>

definition example_stranger :: "nat manager" where
  "example_stranger =
     example_connected\<lparr>module_refs := 1, world := 12,
       trace := trace example_connected @
         [Disconnect 2 3, ProdStop 2, ConsStop 3, ConsDelProducer 3 2, ProdDelConsumer 2 3,
          ConsStart 3, ProdStart 2]\<rparr>"

section \<open>Frames, logs and the invariant\<close>

lemma touched_refl: "touched s s"
  unfolding touched_def by (rule exI[of _ "world s"], rule exI[of _ "[]"]) simp

lemma touched_trans:
  assumes "touched s s1" and "touched s1 s2" shows "touched s s2"
proof -
  from assms(1) obtain w1 e1 where s1: "s1 = s\<lparr>world := w1, trace := trace s @ e1\<rparr>"
    unfolding touched_def by blast
  from assms(2) obtain w2 e2 where s2: "s2 = s1\<lparr>world := w2, trace := trace s1 @ e2\<rparr>"
    unfolding touched_def by blast
  have "s2 = s\<lparr>world := w2, trace := trace s @ (e1 @ e2)\<rparr>"
    unfolding s2 s1 by simp
  then show ?thesis unfolding touched_def by blast
qed

lemma touched_call_void: "touched s (call_void e f s)"
  unfolding touched_def call_void_def by blast

lemma touched_log_event: "touched s (log_event e s)"
  unfolding touched_def log_event_def by (rule exI[of _ "world s"], rule exI[of _ "[e]"]) simp

lemma touched_call_int: "call_int e f s = (r, s') \<Longrightarrow> touched s s'"
  unfolding touched_def call_int_def by (auto split: prod.splits)

lemma touched_prod_stop: "touched s (prod_stop p s)"
  unfolding prod_stop_def by (simp add: touched_refl touched_call_void split: option.splits)

lemma touched_cons_stop: "touched s (cons_stop p s)"
  unfolding cons_stop_def by (simp add: touched_refl touched_call_void split: option.splits)

lemma touched_prod_start: "touched s (prod_start p s)"
  unfolding prod_start_def by (simp add: touched_refl touched_call_void split: option.splits)

lemma touched_cons_start: "touched s (cons_start p s)"
  unfolding cons_start_def by (simp add: touched_refl touched_call_void split: option.splits)

lemma touched_prod_del_consumer: "touched s (prod_del_consumer p c s)"
  unfolding prod_del_consumer_def by (simp add: touched_refl touched_call_void split: option.splits)

lemmas touched_intros = touched_refl touched_call_void touched_log_event touched_prod_stop
  touched_cons_stop touched_prod_start touched_cons_start touched_prod_del_consumer

lemma touched_stops: "touched s (cons_stop c (prod_stop p (log_event e s)))"
  by (rule touched_trans[OF touched_trans[OF touched_log_event touched_prod_stop] touched_cons_stop])

lemma touched_starts: "touched s x \<Longrightarrow> touched s (prod_start p (cons_start c x))"
  by (rule touched_trans[OF touched_trans[OF _ touched_cons_start] touched_prod_start])

lemma touched_connect_add_producer:
  assumes "connect_add_producer p c s = Inr (r, s')" shows "touched s s'"
proof -
  from assms obtain f s1 where f: "c_add_producer (cons_mem s c) = Some f"
    and ci: "call_int (ConsAddProducer c p) (f c p) s = (r, s1)"
    and s': "s' = prod_start p (cons_start c (if r \<noteq> 0 then prod_del_consumer p c s1 else s1))"
    unfolding connect_add_producer_def by (auto split: option.splits prod.splits)
  have a: "touched s s1" using ci by (rule touched_call_int)
  have b: "touched s1 (if r \<noteq> 0 then prod_del_consumer p c s1 else s1)"
    by (simp add: touched_intros)
  show ?thesis unfolding s' by (rule touched_starts[OF touched_trans[OF a b]])
qed

lemma touched_connect:
  assumes "connect p c s = Inr (r, s')" shows "touched s s'"
proof -
  let ?s1 = "cons_stop c (prod_stop p (log_event (Connect p c) s))"
  have t1: "touched s ?s1" by (rule touched_stops)
  show ?thesis
  proof (cases "p_add_consumer (prod_mem ?s1 p)")
    case None
    then have "connect_add_producer p c ?s1 = Inr (r, s')"
      using assms unfolding connect_def by (simp add: Let_def)
    then show ?thesis by (rule touched_trans[OF t1 touched_connect_add_producer])
  next
    case (Some f)
    obtain r2 s2 where ci: "call_int (ProdAddConsumer p c) (f p c) ?s1 = (r2, s2)"
      by (cases "call_int (ProdAddConsumer p c) (f p c) ?s1")
    have t2: "touched s s2" by (rule touched_trans[OF t1 touched_call_int[OF ci]])
    show ?thesis
    proof (cases "r2 = 0")
      case True
      then have "connect_add_producer p c s2 = Inr (r, s')"
        using assms Some ci unfolding connect_def by (simp add: Let_def)
      then show ?thesis by (rule touched_trans[OF t2 touched_connect_add_producer])
    next
      case False
      then have "s' = s2" using assms Some ci unfolding connect_def by (simp add: Let_def)
      then show ?thesis using t2 by simp
    qed
  qed
qed

lemma touched_disconnect:
  assumes "disconnect p c s = Inr s'" shows "touched s s'"
proof -
  let ?s1 = "cons_stop c (prod_stop p (log_event (Disconnect p c) s))"
  have t1: "touched s ?s1" by (rule touched_stops)
  from assms obtain f where s': "s' = prod_start p (cons_start c (prod_del_consumer p c
        (call_void (ConsDelProducer c p) (f c p) ?s1)))"
    unfolding disconnect_def by (auto simp: Let_def split: option.splits)
  show ?thesis unfolding s'
    by (rule touched_starts[OF touched_trans[OF touched_trans[OF t1 touched_call_void]
          touched_prod_del_consumer]])
qed

lemma registry_inv_empty: "registry_empty s \<Longrightarrow> registry_inv s"
  by (simp add: registry_empty_def registry_inv_def)

lemma touchedD:
  assumes "touched s s'"
  shows "prod_mem s' = prod_mem s" "cons_mem s' = cons_mem s" "producers s' = producers s"
    "consumers s' = consumers s" "module_live s' = module_live s" "module_refs s' = module_refs s"
  using assms unfolding touched_def by auto

lemma find_token_None:
  "find (\<lambda>x. f x = t) xs = None \<Longrightarrow> t \<notin> f ` set xs"
  by (auto simp: find_None_iff)

lemma find_in_set: "find P xs = Some x \<Longrightarrow> x \<in> set xs \<and> P x"
  by (auto simp: find_Some_iff)

lemma distinct_map_remove1: "distinct (map f xs) \<Longrightarrow> distinct (map f (remove1 a xs))"
proof (induction xs)
  case Nil
  then show ?case by simp
next
  case (Cons x xs)
  have "set (remove1 a xs) \<subseteq> set xs" by (rule set_remove1_subset)
  then show ?case using Cons by auto
qed

lemma inv_register_producer:
  assumes inv: "registry_inv s" and r: "irq_bypass_register_producer p s = Inr (ret, s')"
  shows "registry_inv s'"
proof (cases "p_token (prod_mem s p) = 0 \<or> \<not> module_live s")
  case True
  then have "s' = s" using r
    unfolding irq_bypass_register_producer_def try_module_get_def by (auto split: if_splits)
  then show ?thesis using inv by simp
next
  case False
  let ?s1 = "s\<lparr>module_refs := module_refs s + 1\<rparr>"
  show ?thesis
  proof (cases "find (\<lambda>tmp. p_token (prod_mem s tmp) = p_token (prod_mem s p)) (producers s)")
    case (Some tmp)
    then have "s' = s" using r False
      unfolding irq_bypass_register_producer_def try_module_get_def module_put_def by simp
    then show ?thesis using inv by simp
  next
    case None
    then have fresh: "p_token (prod_mem s p) \<notin> (\<lambda>x. p_token (prod_mem s x)) ` set (producers s)"
      by (rule find_token_None)
    then have pnew: "p \<notin> set (producers s)" by auto
    show ?thesis
    proof (cases "find (\<lambda>c. c_token (cons_mem s c) = p_token (prod_mem s p)) (consumers s)")
      case N2: None
      then have "s' = ?s1\<lparr>producers := p # producers s\<rparr>" using r False None
        unfolding irq_bypass_register_producer_def try_module_get_def list_add_def by simp
      then show ?thesis using inv fresh pnew False unfolding registry_inv_def by auto
    next
      case (Some c)
      then obtain r2 s2 where c: "connect p c ?s1 = Inr (r2, s2)"
        and s': "s' = (if r2 \<noteq> 0 then module_put s2 else s2\<lparr>producers := p # producers s2\<rparr>)"
        using r False None
        unfolding irq_bypass_register_producer_def try_module_get_def list_add_def
        by (auto split: sum.splits if_splits)
      note t = touchedD[OF touched_connect[OF c]]
      show ?thesis
      proof (cases "r2 = 0")
        case True
        then show ?thesis using inv fresh pnew False t s' unfolding registry_inv_def by auto
      next
        case F2: False
        then show ?thesis using inv t s' unfolding registry_inv_def module_put_def by auto
      qed
    qed
  qed
qed

lemma inv_register_consumer:
  assumes inv: "registry_inv s" and r: "irq_bypass_register_consumer c s = Inr (ret, s')"
  shows "registry_inv s'"
proof (cases "c_token (cons_mem s c) = 0 \<or> c_add_producer (cons_mem s c) = None
    \<or> c_del_producer (cons_mem s c) = None \<or> \<not> module_live s")
  case True
  then have "s' = s" using r
    unfolding irq_bypass_register_consumer_def try_module_get_def by (auto split: if_splits)
  then show ?thesis using inv by simp
next
  case False
  let ?s1 = "s\<lparr>module_refs := module_refs s + 1\<rparr>"
  show ?thesis
  proof (cases "find (\<lambda>tmp. c_token (cons_mem s tmp) = c_token (cons_mem s c) \<or> tmp = c) (consumers s)")
    case (Some tmp)
    then have "s' = s" using r False
      unfolding irq_bypass_register_consumer_def try_module_get_def module_put_def by auto
    then show ?thesis using inv by simp
  next
    case None
    then have fresh: "c_token (cons_mem s c) \<notin> (\<lambda>x. c_token (cons_mem s x)) ` set (consumers s)"
      and cnew: "c \<notin> set (consumers s)"
      by (auto simp: find_None_iff)
    show ?thesis
    proof (cases "find (\<lambda>p. p_token (prod_mem s p) = c_token (cons_mem s c)) (producers s)")
      case N2: None
      then have "s' = ?s1\<lparr>consumers := c # consumers s\<rparr>" using r False None
        unfolding irq_bypass_register_consumer_def try_module_get_def list_add_def by auto
      then show ?thesis using inv fresh cnew False unfolding registry_inv_def by auto
    next
      case (Some p)
      then obtain r2 s2 where c: "connect p c ?s1 = Inr (r2, s2)"
        and s': "s' = (if r2 \<noteq> 0 then module_put s2 else s2\<lparr>consumers := c # consumers s2\<rparr>)"
        using r False None
        unfolding irq_bypass_register_consumer_def try_module_get_def list_add_def
        by (auto split: sum.splits if_splits)
      note t = touchedD[OF touched_connect[OF c]]
      show ?thesis
      proof (cases "r2 = 0")
        case True
        then show ?thesis using inv fresh cnew False t s' unfolding registry_inv_def by auto
      next
        case F2: False
        then show ?thesis using inv t s' unfolding registry_inv_def module_put_def by auto
      qed
    qed
  qed
qed

lemma logged_refl: "logged s [] s"
  unfolding logged_def by (rule exI[of _ "world s"]) simp

lemma logged_trans:
  assumes "logged s e1 s1" and "logged s1 e2 s2" shows "logged s (e1 @ e2) s2"
proof -
  from assms(1) obtain w1 where s1: "s1 = s\<lparr>world := w1, trace := trace s @ e1\<rparr>"
    unfolding logged_def by blast
  from assms(2) obtain w2 where s2: "s2 = s1\<lparr>world := w2, trace := trace s1 @ e2\<rparr>"
    unfolding logged_def by blast
  have "s2 = s\<lparr>world := w2, trace := trace s @ (e1 @ e2)\<rparr>"
    unfolding s2 s1 by simp
  then show ?thesis unfolding logged_def by blast
qed

lemma logged_touched: "logged s evs s' \<Longrightarrow> touched s s'"
  unfolding logged_def touched_def by blast

lemma logged_new_events: "logged s evs s' \<Longrightarrow> new_events s s' = evs"
  unfolding logged_def new_events_def by auto

lemma logged_call_void: "logged s [e] (call_void e f s)"
  unfolding logged_def call_void_def by blast

lemma logged_log_event: "logged s [e] (log_event e s)"
  unfolding logged_def log_event_def by (rule exI[of _ "world s"]) simp

lemma logged_call_int: "call_int e f s = (r, s') \<Longrightarrow> logged s [e r] s'"
  unfolding logged_def call_int_def by (auto split: prod.splits)

lemma logged_prod_stop: "\<exists>es. logged s es (prod_stop p s) \<and> list_all quiet es"
proof (cases "p_stop (prod_mem s p)")
  case None
  then show ?thesis using logged_refl[of s] by (auto simp: prod_stop_def)
next
  case (Some f)
  then show ?thesis using logged_call_void[of s "ProdStop p" "f p"]
    by (auto simp: prod_stop_def intro!: exI[of _ "[ProdStop p]"])
qed

lemma logged_cons_stop: "\<exists>es. logged s es (cons_stop c s) \<and> list_all quiet es"
proof (cases "c_stop (cons_mem s c)")
  case None
  then show ?thesis using logged_refl[of s] by (auto simp: cons_stop_def)
next
  case (Some f)
  then show ?thesis using logged_call_void[of s "ConsStop c" "f c"]
    by (auto simp: cons_stop_def intro!: exI[of _ "[ConsStop c]"])
qed

lemma logged_cons_start: "\<exists>es. logged s es (cons_start c s) \<and> list_all quiet es"
proof (cases "c_start (cons_mem s c)")
  case None
  then show ?thesis using logged_refl[of s] by (auto simp: cons_start_def)
next
  case (Some f)
  then show ?thesis using logged_call_void[of s "ConsStart c" "f c"]
    by (auto simp: cons_start_def intro!: exI[of _ "[ConsStart c]"])
qed

lemma logged_prod_start: "\<exists>es. logged s es (prod_start p s) \<and> list_all quiet es"
proof (cases "p_start (prod_mem s p)")
  case None
  then show ?thesis using logged_refl[of s] by (auto simp: prod_start_def)
next
  case (Some f)
  then show ?thesis using logged_call_void[of s "ProdStart p" "f p"]
    by (auto simp: prod_start_def intro!: exI[of _ "[ProdStart p]"])
qed

lemma logged_stops:
  "\<exists>es. logged s (e # es) (cons_stop c (prod_stop p (log_event e s))) \<and> list_all quiet es"
proof -
  let ?s0 = "log_event e s"
  obtain e1 where a: "logged ?s0 e1 (prod_stop p ?s0)" and q1: "list_all quiet e1"
    using logged_prod_stop by blast
  obtain e2 where b: "logged (prod_stop p ?s0) e2 (cons_stop c (prod_stop p ?s0))"
    and q2: "list_all quiet e2"
    using logged_cons_stop by blast
  have "logged s ([e] @ e1 @ e2) (cons_stop c (prod_stop p ?s0))"
    by (rule logged_trans[OF logged_log_event logged_trans[OF a b]])
  then show ?thesis using q1 q2 by (intro exI[of _ "e1 @ e2"]) simp
qed

lemma logged_starts:
  assumes "logged s evs x"
  shows "\<exists>es. logged s (evs @ es) (prod_start p (cons_start c x)) \<and> list_all quiet es"
proof -
  obtain e1 where a: "logged x e1 (cons_start c x)" and q1: "list_all quiet e1"
    using logged_cons_start by blast
  obtain e2 where b: "logged (cons_start c x) e2 (prod_start p (cons_start c x))"
    and q2: "list_all quiet e2"
    using logged_prod_start by blast
  have "logged s (evs @ e1 @ e2) (prod_start p (cons_start c x))"
    by (rule logged_trans[OF assms logged_trans[OF a b]])
  then show ?thesis using q1 q2 by (intro exI[of _ "e1 @ e2"]) simp
qed

lemma logged_prod_del_consumer:
  "logged s (if p_del_consumer (prod_mem s p) = None then [] else [ProdDelConsumer p c])
     (prod_del_consumer p c s)"
  by (cases "p_del_consumer (prod_mem s p)")
     (simp_all add: prod_del_consumer_def logged_refl logged_call_void)

text \<open>What the second half of \<^verbatim>\<open>__connect\<close> logs.\<close>

lemma logged_connect_add_producer:
  assumes "connect_add_producer p c s = Inr (r, s')"
  shows "\<exists>es. logged s (ConsAddProducer c p r # rollback s p c r @ es) s' \<and> list_all quiet es"
proof -
  from assms obtain f s1 where f: "c_add_producer (cons_mem s c) = Some f"
    and ci: "call_int (ConsAddProducer c p) (f c p) s = (r, s1)"
    and s': "s' = prod_start p (cons_start c (if r \<noteq> 0 then prod_del_consumer p c s1 else s1))"
    unfolding connect_add_producer_def by (auto split: option.splits prod.splits)
  have a: "logged s [ConsAddProducer c p r] s1" using ci by (rule logged_call_int)
  have m: "prod_mem s1 = prod_mem s" using touchedD(1)[OF logged_touched[OF a]] .
  have b: "logged s1 (rollback s p c r) (if r \<noteq> 0 then prod_del_consumer p c s1 else s1)"
    using logged_prod_del_consumer[of s1 p c] logged_refl[of s1]
    by (auto simp: rollback_def m)
  from logged_starts[OF logged_trans[OF a b], of p c]
  show ?thesis unfolding s' by simp
qed

lemma connect_add_producer_total:
  assumes "c_add_producer (cons_mem s c) \<noteq> None"
  shows "\<exists>r s'. connect_add_producer p c s = Inr (r, s')"
  using assms unfolding connect_add_producer_def by (auto split: prod.splits)

text \<open>
  The log of a whole \<^verbatim>\<open>__connect\<close>: the entry mark, the stops, then either the single
  failed \<^verbatim>\<open>add_consumer\<close> and nothing more, or the add calls with the rollback, and the
  starts.
\<close>

lemma logged_connect:
  assumes "connect p c s = Inr (r, s')"
  shows "\<exists>q1 mid q2. logged s (Connect p c # q1 @ mid @ q2) s'
     \<and> list_all quiet q1 \<and> list_all quiet q2
     \<and> ((p_add_consumer (prod_mem s p) \<noteq> None \<and> r \<noteq> 0 \<and> mid = [ProdAddConsumer p c r] \<and> q2 = [])
        \<or> mid = (if p_add_consumer (prod_mem s p) = None then [] else [ProdAddConsumer p c 0])
                 @ ConsAddProducer c p r # rollback s p c r)"
proof -
  let ?s1 = "cons_stop c (prod_stop p (log_event (Connect p c) s))"
  obtain q1 where l1: "logged s (Connect p c # q1) ?s1" and q1: "list_all quiet q1"
    using logged_stops by blast
  have m1: "prod_mem ?s1 = prod_mem s" using touchedD(1)[OF logged_touched[OF l1]] .
  show ?thesis
  proof (cases "p_add_consumer (prod_mem s p)")
    case None
    then have "connect_add_producer p c ?s1 = Inr (r, s')"
      using assms m1 unfolding connect_def by (simp add: Let_def)
    from logged_connect_add_producer[OF this] obtain q2
      where l2: "logged ?s1 (ConsAddProducer c p r # rollback ?s1 p c r @ q2) s'"
        and q2: "list_all quiet q2" by blast
    have "logged s ((Connect p c # q1) @ (ConsAddProducer c p r # rollback ?s1 p c r @ q2)) s'"
      by (rule logged_trans[OF l1 l2])
    then have "logged s (Connect p c # q1 @ (ConsAddProducer c p r # rollback s p c r) @ q2) s'"
      by (simp add: rollback_def m1)
    then show ?thesis using q1 q2 None
      by (intro exI[of _ q1] exI[of _ "ConsAddProducer c p r # rollback s p c r"] exI[of _ q2])
         simp
  next
    case (Some f)
    obtain r2 s2 where ci: "call_int (ProdAddConsumer p c) (f p c) ?s1 = (r2, s2)"
      by (cases "call_int (ProdAddConsumer p c) (f p c) ?s1")
    have l2: "logged ?s1 [ProdAddConsumer p c r2] s2" using ci by (rule logged_call_int)
    have m2: "prod_mem s2 = prod_mem s" using touchedD(1)[OF logged_touched[OF l2]] m1 by simp
    show ?thesis
    proof (cases "r2 = 0")
      case True
      then have "connect_add_producer p c s2 = Inr (r, s')"
        using assms Some ci m1 unfolding connect_def by (simp add: Let_def)
      from logged_connect_add_producer[OF this] obtain q2
        where l3: "logged s2 (ConsAddProducer c p r # rollback s2 p c r @ q2) s'"
          and q2: "list_all quiet q2" by blast
      have "logged s ((Connect p c # q1) @ [ProdAddConsumer p c r2]
               @ (ConsAddProducer c p r # rollback s2 p c r @ q2)) s'"
        by (rule logged_trans[OF l1 logged_trans[OF l2 l3]])
      then have "logged s (Connect p c # q1
           @ ([ProdAddConsumer p c 0] @ ConsAddProducer c p r # rollback s p c r) @ q2) s'"
        using True by (simp add: rollback_def m2)
      then show ?thesis using q1 q2 Some
        by (intro exI[of _ q1]
              exI[of _ "[ProdAddConsumer p c 0] @ ConsAddProducer c p r # rollback s p c r"]
              exI[of _ q2])
           simp
    next
      case False
      then have eq: "s' = s2" "r = r2"
        using assms Some ci m1 unfolding connect_def by (simp_all add: Let_def)
      have "logged s ((Connect p c # q1) @ [ProdAddConsumer p c r2]) s2"
        by (rule logged_trans[OF l1 l2])
      then have "logged s (Connect p c # q1 @ [ProdAddConsumer p c r] @ []) s'"
        using eq by simp
      then show ?thesis using q1 Some False eq
        by (intro exI[of _ q1] exI[of _ "[ProdAddConsumer p c r]"] exI[of _ "[]"]) simp
    qed
  qed
qed

lemma connect_total:
  assumes "c_add_producer (cons_mem s c) \<noteq> None"
  shows "\<exists>r s'. connect p c s = Inr (r, s')"
proof -
  let ?s1 = "cons_stop c (prod_stop p (log_event (Connect p c) s))"
  have m1: "cons_mem ?s1 = cons_mem s" using touchedD(2)[OF touched_stops] .
  show ?thesis
  proof (cases "p_add_consumer (prod_mem ?s1 p)")
    case None
    then show ?thesis
      using connect_add_producer_total[of ?s1 c p] assms m1 unfolding connect_def
      by (simp add: Let_def)
  next
    case (Some f)
    obtain r2 s2 where ci: "call_int (ProdAddConsumer p c) (f p c) ?s1 = (r2, s2)"
      by (cases "call_int (ProdAddConsumer p c) (f p c) ?s1")
    have m2: "cons_mem s2 = cons_mem s" using touchedD(2)[OF touched_call_int[OF ci]] m1 by simp
    show ?thesis
      using connect_add_producer_total[of s2 c p] assms m2 Some ci unfolding connect_def
      by (simp add: Let_def)
  qed
qed

lemma disconnect_total:
  assumes "c_del_producer (cons_mem s c) \<noteq> None"
  shows "\<exists>s'. disconnect p c s = Inr s'"
proof -
  let ?s1 = "cons_stop c (prod_stop p (log_event (Disconnect p c) s))"
  have m1: "cons_mem ?s1 = cons_mem s" using touchedD(2)[OF touched_stops] .
  then show ?thesis using assms unfolding disconnect_def by (auto simp: Let_def)
qed

lemma inv_remove_producer:
  assumes inv: "registry_inv s" and t: "touched (s\<lparr>module_refs := n\<rparr>) s2"
  shows "registry_inv (module_put (module_put (s2\<lparr>producers := remove1 a (producers s2)\<rparr>)))"
proof -
  note f = touchedD[OF t]
  have "distinct (map (\<lambda>p. p_token (prod_mem s p)) (remove1 a (producers s)))"
    using inv unfolding registry_inv_def by (simp add: distinct_map_remove1)
  moreover have "set (remove1 a (producers s)) \<subseteq> set (producers s)"
    by (rule set_remove1_subset)
  moreover have "remove1 a (producers s) \<noteq> [] \<longrightarrow> producers s \<noteq> []" by auto
  ultimately show ?thesis using inv f unfolding registry_inv_def module_put_def by auto
qed

lemma inv_remove_consumer:
  assumes inv: "registry_inv s" and t: "touched (s\<lparr>module_refs := n\<rparr>) s2"
  shows "registry_inv (module_put (module_put (s2\<lparr>consumers := remove1 a (consumers s2)\<rparr>)))"
proof -
  note f = touchedD[OF t]
  have "distinct (map (\<lambda>c. c_token (cons_mem s c)) (remove1 a (consumers s)))"
    using inv unfolding registry_inv_def by (simp add: distinct_map_remove1)
  moreover have "set (remove1 a (consumers s)) \<subseteq> set (consumers s)"
    by (rule set_remove1_subset)
  moreover have "remove1 a (consumers s) \<noteq> [] \<longrightarrow> consumers s \<noteq> []" by auto
  ultimately show ?thesis using inv f unfolding registry_inv_def module_put_def by auto
qed

lemma inv_unregister_producer:
  assumes inv: "registry_inv s" and r: "irq_bypass_unregister_producer p s = Inr s'"
  shows "registry_inv s'"
proof (cases "p_token (prod_mem s p) = 0 \<or> \<not> module_live s")
  case True
  then have "s' = s" using r
    unfolding irq_bypass_unregister_producer_def try_module_get_def by (auto split: if_splits)
  then show ?thesis using inv by simp
next
  case False
  let ?s1 = "s\<lparr>module_refs := module_refs s + 1\<rparr>"
  show ?thesis
  proof (cases "find (\<lambda>tmp. p_token (prod_mem s tmp) = p_token (prod_mem s p)) (producers s)")
    case None
    then have "s' = s" using r False
      unfolding irq_bypass_unregister_producer_def try_module_get_def module_put_def by auto
    then show ?thesis using inv by simp
  next
    case (Some tmp)
    let ?inner = "case find (\<lambda>c. c_token (cons_mem s c) = p_token (prod_mem s p)) (consumers s) of
        None \<Rightarrow> Inr ?s1 | Some c \<Rightarrow> disconnect p c ?s1"
    from r False Some obtain s2 where i: "?inner = Inr s2"
      and s': "s' = module_put (module_put (s2\<lparr>producers := remove1 p (producers s2)\<rparr>))"
      unfolding irq_bypass_unregister_producer_def try_module_get_def list_del_def
      by (auto split: sum.splits option.splits if_splits)
    have t: "touched ?s1 s2" using i touched_disconnect touched_refl
      by (auto split: option.splits)
    show ?thesis unfolding s' by (rule inv_remove_producer[OF inv t])
  qed
qed

lemma inv_unregister_consumer:
  assumes inv: "registry_inv s" and r: "irq_bypass_unregister_consumer c s = Inr s'"
  shows "registry_inv s'"
proof (cases "c_token (cons_mem s c) = 0 \<or> \<not> module_live s")
  case True
  then have "s' = s" using r
    unfolding irq_bypass_unregister_consumer_def try_module_get_def by (auto split: if_splits)
  then show ?thesis using inv by simp
next
  case False
  let ?s1 = "s\<lparr>module_refs := module_refs s + 1\<rparr>"
  show ?thesis
  proof (cases "find (\<lambda>tmp. tmp = c) (consumers s)")
    case None
    then have "s' = s" using r False
      unfolding irq_bypass_unregister_consumer_def try_module_get_def module_put_def by auto
    then show ?thesis using inv by simp
  next
    case (Some tmp)
    let ?inner = "case find (\<lambda>p. p_token (prod_mem s p) = c_token (cons_mem s c)) (producers s) of
        None \<Rightarrow> Inr ?s1 | Some p \<Rightarrow> disconnect p c ?s1"
    from r False Some obtain s2 where i: "?inner = Inr s2"
      and s': "s' = module_put (module_put (s2\<lparr>consumers := remove1 c (consumers s2)\<rparr>))"
      unfolding irq_bypass_unregister_consumer_def try_module_get_def list_del_def
      by (auto split: sum.splits option.splits if_splits)
    have t: "touched ?s1 s2" using i touched_disconnect touched_refl
      by (auto split: option.splits)
    show ?thesis unfolding s' by (rule inv_remove_consumer[OF inv t])
  qed
qed

lemma inv_api_step:
  assumes "registry_inv s" and "api_step c s = Inr s'"
  shows "registry_inv s'"
proof (cases c)
  case (Register_producer p)
  then show ?thesis using assms inv_register_producer[of s p]
    unfolding api_step_def by (auto split: sum.splits)
next
  case (Unregister_producer p)
  then show ?thesis using assms inv_unregister_producer[of s p]
    unfolding api_step_def by auto
next
  case (Register_consumer c)
  then show ?thesis using assms inv_register_consumer[of s c]
    unfolding api_step_def by (auto split: sum.splits)
next
  case (Unregister_consumer c)
  then show ?thesis using assms inv_unregister_consumer[of s c]
    unfolding api_step_def by auto
qed

lemma inv_run: "registry_inv s \<Longrightarrow> run cs s = Inr s' \<Longrightarrow> registry_inv s'"
proof (induction cs arbitrary: s)
  case Nil
  then show ?case by simp
next
  case (Cons c cs)
  then obtain s1 where a: "api_step c s = Inr s1" and b: "run cs s1 = Inr s'"
    by (auto split: sum.splits)
  show ?case by (rule Cons.IH[OF inv_api_step[OF Cons.prems(1) a] b])
qed

lemma find_unique:
  "distinct (map f xs) \<Longrightarrow> p \<in> set xs \<Longrightarrow> find (\<lambda>x. f x = f p) xs = Some p"
  by (induction xs) auto

lemmas model_defs = connect_def connect_add_producer_def disconnect_def
  irq_bypass_register_producer_def irq_bypass_unregister_producer_def
  irq_bypass_register_consumer_def irq_bypass_unregister_consumer_def
  api_step_def try_module_get_def module_put_def list_add_def list_del_def
  log_event_def call_void_def call_int_def prod_stop_def cons_stop_def cons_start_def
  prod_start_def prod_del_consumer_def EINVAL_def ENODEV_def EBUSY_def

lemmas example_defs = example_manager_def example_producer_def example_consumer_def
  example_registered_def example_connected_def example_rejected_def
  example_stranger_def wiring_def tick_def tick2_def answer_def reached_def fault_of_def new_events_def registry_empty_def

lemma quiet_add_result: "quiet e \<Longrightarrow> add_result e = None"
  by (cases e) simp_all

lemma quiet_not_connect: "quiet e \<Longrightarrow> \<not> is_connect e"
  by (cases e) simp_all

lemma quiet_first_error: "list_all quiet q \<Longrightarrow> first_error (q @ es) = first_error es"
  by (induction q) (simp_all add: quiet_add_result)

lemma quiet_filter_connect: "list_all quiet q \<Longrightarrow> filter is_connect q = []"
  by (induction q) (simp_all add: quiet_not_connect)

lemma quiet_mem: "list_all quiet q \<Longrightarrow> e \<in> set q \<Longrightarrow> quiet e"
  by (simp add: list_all_iff)

lemma quiet_no_wiring:
  assumes "list_all quiet q"
  shows "ProdAddConsumer p c r \<notin> set q" "ConsAddProducer c p r \<notin> set q"
    "ProdDelConsumer p c \<notin> set q" "ConsDelProducer c p \<notin> set q"
    "Connect p c \<notin> set q" "Disconnect p c \<notin> set q"
  using quiet_mem[OF assms] by fastforce+

lemma first_error_zero_iff:
  "first_error es = 0 \<longleftrightarrow> (\<forall>e \<in> set es. \<forall>r. add_result e = Some r \<longrightarrow> r = 0)"
  by (induction es) (auto split: option.splits)

lemma filter_connect_rollback: "filter is_connect (rollback s p c r) = []"
  by (simp add: rollback_def)

lemma first_error_rollback: "first_error (rollback s p c r @ es) = first_error es"
  by (simp add: rollback_def)

lemma example_registered_run:
  "run [Register_producer 1] example_manager = Inr example_registered"
  by (simp add: model_defs example_defs)

lemma example_connected_run:
  "run [Register_producer 1, Register_consumer 3] example_manager = Inr example_connected"
  by (simp add: model_defs example_defs)

lemma module_put_get: "module_put (s\<lparr>module_refs := module_refs s + 1\<rparr>) = s"
  by (simp add: module_put_def)

lemma unregister_consumer_absent:
  assumes "c \<notin> set (consumers s)"
  shows "irq_bypass_unregister_consumer c s = Inr s"
proof -
  have "find (\<lambda>tmp. tmp = c) (consumers s) = None" using assms by (auto simp: find_None_iff)
  then show ?thesis
    unfolding irq_bypass_unregister_consumer_def try_module_get_def
    by (simp add: module_put_get)
qed

lemma unregister_producer_no_token:
  assumes "p_token (prod_mem s p) \<notin> (\<lambda>q. p_token (prod_mem s q)) ` set (producers s)"
  shows "irq_bypass_unregister_producer p s = Inr s"
proof -
  have "p_token (prod_mem s x) \<noteq> p_token (prod_mem s p)" if "x \<in> set (producers s)" for x
    using assms
      rev_image_eqI[OF that, of "p_token (prod_mem s p)" "\<lambda>q. p_token (prod_mem s q)"]
    by auto
  then have "find (\<lambda>tmp. p_token (prod_mem s tmp) = p_token (prod_mem s p)) (producers s) = None"
    by (simp add: find_None_iff)
  then show ?thesis
    unfolding irq_bypass_unregister_producer_def try_module_get_def
    by (simp add: module_put_get)
qed

lemma logged_trace: "logged s evs s' \<Longrightarrow> trace s' = trace s @ evs"
  unfolding logged_def by auto

text \<open>The log of a whole \<^verbatim>\<open>__disconnect\<close>.\<close>

lemma logged_disconnect:
  assumes "disconnect p c s = Inr s'"
  shows "\<exists>q1 q2. logged s (Disconnect p c # q1 @ (ConsDelProducer c p
            # (if p_del_consumer (prod_mem s p) = None then [] else [ProdDelConsumer p c])) @ q2) s'
          \<and> list_all quiet q1 \<and> list_all quiet q2"
proof -
  let ?s1 = "cons_stop c (prod_stop p (log_event (Disconnect p c) s))"
  obtain q1 where l1: "logged s (Disconnect p c # q1) ?s1" and q1: "list_all quiet q1"
    using logged_stops by blast
  from assms obtain f where s': "s' = prod_start p (cons_start c (prod_del_consumer p c
        (call_void (ConsDelProducer c p) (f c p) ?s1)))"
    unfolding disconnect_def by (auto simp: Let_def split: option.splits)
  let ?sv = "call_void (ConsDelProducer c p) (f c p) ?s1"
  have l2: "logged ?s1 [ConsDelProducer c p] ?sv" by (rule logged_call_void)
  have m: "prod_mem ?sv = prod_mem s"
    using touchedD(1)[OF logged_touched[OF l2]] touchedD(1)[OF logged_touched[OF l1]] by simp
  have l3: "logged ?sv (if p_del_consumer (prod_mem s p) = None then [] else [ProdDelConsumer p c])
      (prod_del_consumer p c ?sv)"
    using logged_prod_del_consumer[of ?sv p c] by (simp only: m)
  from logged_starts[OF logged_trans[OF l1 logged_trans[OF l2 l3]], of p c]
  obtain q2 where "logged s ((Disconnect p c # q1) @ [ConsDelProducer c p]
        @ (if p_del_consumer (prod_mem s p) = None then [] else [ProdDelConsumer p c]) @ q2) s'"
    and q2: "list_all quiet q2"
    unfolding s' by auto
  then have "logged s (Disconnect p c # q1 @ (ConsDelProducer c p
            # (if p_del_consumer (prod_mem s p) = None then [] else [ProdDelConsumer p c])) @ q2) s'"
    by simp
  then show ?thesis using q1 q2 by blast
qed

lemma wiring_quiet: "list_all quiet q \<Longrightarrow> wiring q = []"
  by (induction q) (simp_all add: wiring_def)

lemma wiring_append: "wiring (xs @ ys) = wiring xs @ wiring ys"
  by (simp add: wiring_def)

text \<open>
  \<^verbatim>\<open>irq_bypass_unregister_producer\<close> on a producer descriptor that is not on the list but
  carries a registered token: the search by token succeeds, \<^verbatim>\<open>__disconnect\<close> runs on the
  argument and the consumer of that token, \<^verbatim>\<open>list_del\<close> finds nothing to remove, and both
  \<^verbatim>\<open>module_put\<close> run.
\<close>

lemma unregister_producer_stranger:
  assumes inv: "registry_inv s" and p: "p \<in> set (producers s)" and ne: "p' \<noteq> p"
    and tok: "p_token (prod_mem s p') = p_token (prod_mem s p)"
  shows "\<exists>s'. irq_bypass_unregister_producer p' s = Inr s'
      \<and> producers s' = producers s \<and> consumers s' = consumers s
      \<and> module_refs s' = module_refs s - 1
      \<and> wiring (new_events s s') =
          (case find (\<lambda>c. c_token (cons_mem s c) = p_token (prod_mem s p')) (consumers s) of
             None \<Rightarrow> []
           | Some c \<Rightarrow> Disconnect p' c # ConsDelProducer c p'
               # (if p_del_consumer (prod_mem s p') = None then [] else [ProdDelConsumer p' c]))"
proof -
  have dm: "distinct (map (\<lambda>x. p_token (prod_mem s x)) (producers s))"
    using inv unfolding registry_inv_def by simp
  have f: "find (\<lambda>tmp. p_token (prod_mem s tmp) = p_token (prod_mem s p')) (producers s) = Some p"
    using find_unique[OF dm p] tok by simp
  have out: "p' \<notin> set (producers s)"
  proof
    assume "p' \<in> set (producers s)"
    then have "find (\<lambda>x. p_token (prod_mem s x) = p_token (prod_mem s p')) (producers s) = Some p'"
      by (rule find_unique[OF dm])
    then show False using f ne by simp
  qed
  have tok0: "p_token (prod_mem s p') \<noteq> 0" and live: "module_live s"
    using inv p tok unfolding registry_inv_def by auto
  let ?s1 = "s\<lparr>module_refs := module_refs s + 1\<rparr>"
  let ?found = "find (\<lambda>c. c_token (cons_mem s c) = p_token (prod_mem s p')) (consumers s)"
  let ?inner = "case ?found of None \<Rightarrow> Inr ?s1 | Some c \<Rightarrow> disconnect p' c ?s1"
  let ?w = "case ?found of None \<Rightarrow> []
           | Some c \<Rightarrow> Disconnect p' c # ConsDelProducer c p'
               # (if p_del_consumer (prod_mem s p') = None then [] else [ProdDelConsumer p' c])"
  have "\<exists>s2 evs. ?inner = Inr s2 \<and> logged ?s1 evs s2 \<and> wiring evs = ?w"
  proof (cases ?found)
    case None
    then show ?thesis using logged_refl[of ?s1] by (auto simp: wiring_def)
  next
    case (Some c)
    then have "c \<in> set (consumers s)" by (auto dest: find_in_set)
    then have "c_del_producer (cons_mem ?s1 c) \<noteq> None"
      using inv unfolding registry_inv_def by auto
    from disconnect_total[OF this, of p'] obtain s2 where d: "disconnect p' c ?s1 = Inr s2"
      by blast
    from logged_disconnect[OF d] obtain q1 q2
      where l: "logged ?s1 (Disconnect p' c # q1 @ (ConsDelProducer c p'
            # (if p_del_consumer (prod_mem ?s1 p') = None then [] else [ProdDelConsumer p' c])) @ q2) s2"
        and q: "list_all quiet q1" "list_all quiet q2"
      by blast
    have "wiring (Disconnect p' c # q1 @ (ConsDelProducer c p'
            # (if p_del_consumer (prod_mem ?s1 p') = None then [] else [ProdDelConsumer p' c])) @ q2)
        = ?w"
      using Some wiring_quiet[OF q(1)] wiring_quiet[OF q(2)]
        wiring_append[of "Disconnect p' c # q1"]
        wiring_append[of "[Disconnect p' c]" q1]
        wiring_append[of "ConsDelProducer c p'
            # (if p_del_consumer (prod_mem ?s1 p') = None then [] else [ProdDelConsumer p' c])" q2]
      by (simp add: wiring_def)
    then show ?thesis using Some d l by auto
  qed
  then obtain s2 evs where i: "?inner = Inr s2" and l: "logged ?s1 evs s2"
    and w: "wiring evs = ?w" by blast
  note t = touchedD[OF logged_touched[OF l]]
  let ?s' = "module_put (module_put (s2\<lparr>producers := remove1 p' (producers s2)\<rparr>))"
  have r: "irq_bypass_unregister_producer p' s = Inr ?s'"
    using tok0 live f i
    unfolding irq_bypass_unregister_producer_def try_module_get_def list_del_def by simp
  have ps: "producers ?s' = producers s"
    using t out by (simp add: module_put_def remove1_idem)
  have cs: "consumers ?s' = consumers s" using t by (simp add: module_put_def)
  have rf: "module_refs ?s' = module_refs s - 1" using t by (simp add: module_put_def)
  have ev: "new_events s ?s' = evs"
    using logged_trace[OF l] by (simp add: new_events_def module_put_def)
  show ?thesis using r ps cs rf ev w by (intro exI[of _ ?s']) simp
qed


lemma register_consumer_outcome:
  obtains (unchanged) ret where "irq_bypass_register_consumer c s = Inr (ret, s)" and "ret \<noteq> 0"
    and "c_token (cons_mem s c) = 0 \<or> c_add_producer (cons_mem s c) = None
         \<or> c_del_producer (cons_mem s c) = None \<or> \<not> module_live s
         \<or> find (\<lambda>tmp. c_token (cons_mem s tmp) = c_token (cons_mem s c) \<or> tmp = c) (consumers s)
              \<noteq> None"
  | (unmatched)
      "irq_bypass_register_consumer c s =
         Inr (0, s\<lparr>module_refs := module_refs s + 1, consumers := c # consumers s\<rparr>)"
    and "find (\<lambda>p. p_token (prod_mem s p) = c_token (cons_mem s c)) (producers s) = None"
  | (matched) p ret s2 where
      "find (\<lambda>p. p_token (prod_mem s p) = c_token (cons_mem s c)) (producers s) = Some p"
    and "connect p c (s\<lparr>module_refs := module_refs s + 1\<rparr>) = Inr (ret, s2)"
    and "irq_bypass_register_consumer c s =
           Inr (ret, if ret \<noteq> 0 then module_put s2 else s2\<lparr>consumers := c # consumers s2\<rparr>)"
proof (cases "c_token (cons_mem s c) = 0 \<or> c_add_producer (cons_mem s c) = None
    \<or> c_del_producer (cons_mem s c) = None")
  case True
  then have "irq_bypass_register_consumer c s = Inr (- EINVAL, s)"
    unfolding irq_bypass_register_consumer_def by auto
  then show ?thesis using True by (intro unchanged[of "- EINVAL"]) (auto simp: EINVAL_def)
next
  case valid: False
  show ?thesis
  proof (cases "module_live s")
    case False
    then have "irq_bypass_register_consumer c s = Inr (- ENODEV, s)"
      using valid unfolding irq_bypass_register_consumer_def try_module_get_def by auto
    then show ?thesis using False by (intro unchanged[of "- ENODEV"]) (auto simp: ENODEV_def)
  next
    case live: True
    let ?s1 = "s\<lparr>module_refs := module_refs s + 1\<rparr>"
    show ?thesis
    proof (cases "find (\<lambda>tmp. c_token (cons_mem s tmp) = c_token (cons_mem s c) \<or> tmp = c)
        (consumers s)")
      case (Some tmp)
      then have "irq_bypass_register_consumer c s = Inr (- EBUSY, s)"
        using valid live unfolding irq_bypass_register_consumer_def try_module_get_def
        by (auto simp: module_put_get)
      then show ?thesis using Some by (intro unchanged[of "- EBUSY"]) (auto simp: EBUSY_def)
    next
      case nodup: None
      show ?thesis
      proof (cases "find (\<lambda>p. p_token (prod_mem s p) = c_token (cons_mem s c)) (producers s)")
        case None
        then have "irq_bypass_register_consumer c s =
            Inr (0, s\<lparr>module_refs := module_refs s + 1, consumers := c # consumers s\<rparr>)"
          using valid live nodup
          unfolding irq_bypass_register_consumer_def try_module_get_def list_add_def by auto
        then show ?thesis using None by (rule unmatched)
      next
        case (Some p)
        have "c_add_producer (cons_mem ?s1 c) \<noteq> None" using valid by simp
        from connect_total[OF this, of p] obtain ret s2
          where c: "connect p c ?s1 = Inr (ret, s2)" by blast
        have "irq_bypass_register_consumer c s =
            Inr (ret, if ret \<noteq> 0 then module_put s2 else s2\<lparr>consumers := c # consumers s2\<rparr>)"
          using valid live nodup Some c
          unfolding irq_bypass_register_consumer_def try_module_get_def list_add_def by auto
        then show ?thesis using Some c matched by blast
      qed
    qed
  qed
qed

lemma new_events_same: "trace s' = trace s \<Longrightarrow> new_events s s' = []"
  by (simp add: new_events_def)

text \<open>In a registry that satisfies the invariant every call returns.\<close>

lemma register_producer_no_fault:
  assumes inv: "registry_inv s"
  shows "\<exists>ret s'. irq_bypass_register_producer p s = Inr (ret, s')"
proof (cases "find (\<lambda>c. c_token (cons_mem s c) = p_token (prod_mem s p)) (consumers s)")
  case None
  then show ?thesis
    unfolding irq_bypass_register_producer_def try_module_get_def
    by (auto split: option.splits)
next
  case (Some c)
  let ?s1 = "s\<lparr>module_refs := module_refs s + 1\<rparr>"
  have "c \<in> set (consumers s)" using Some by (auto dest: find_in_set)
  then have "c_add_producer (cons_mem ?s1 c) \<noteq> None"
    using inv unfolding registry_inv_def by auto
  from connect_total[OF this, of p] obtain r2 s2 where "connect p c ?s1 = Inr (r2, s2)"
    by blast
  then show ?thesis using Some
    unfolding irq_bypass_register_producer_def try_module_get_def
    by (auto split: option.splits)
qed

lemma register_consumer_no_fault:
  "\<exists>ret s'. irq_bypass_register_consumer c s = Inr (ret, s')"
  by (cases rule: register_consumer_outcome[of c s]) blast+

lemma unregister_consumer_no_fault:
  assumes inv: "registry_inv s"
  shows "\<exists>s'. irq_bypass_unregister_consumer c s = Inr s'"
proof (cases "c \<in> set (consumers s)")
  case False
  then show ?thesis using unregister_consumer_absent by blast
next
  case True
  let ?s1 = "s\<lparr>module_refs := module_refs s + 1\<rparr>"
  let ?inner = "case find (\<lambda>p. p_token (prod_mem s p) = c_token (cons_mem s c)) (producers s) of
        None \<Rightarrow> Inr ?s1 | Some p \<Rightarrow> disconnect p c ?s1"
  have del: "c_del_producer (cons_mem ?s1 c) \<noteq> None"
    using inv True unfolding registry_inv_def by auto
  have "\<exists>s2. ?inner = Inr s2"
  proof (cases "find (\<lambda>p. p_token (prod_mem s p) = c_token (cons_mem s c)) (producers s)")
    case None
    then show ?thesis by simp
  next
    case (Some p)
    then show ?thesis using disconnect_total[OF del, of p] by simp
  qed
  then obtain s2 where i: "?inner = Inr s2" by blast
  then show ?thesis
    unfolding irq_bypass_unregister_consumer_def try_module_get_def
    by (auto split: option.splits)
qed

lemma unregister_producer_no_fault:
  assumes inv: "registry_inv s"
  shows "\<exists>s'. irq_bypass_unregister_producer p s = Inr s'"
proof -
  let ?s1 = "s\<lparr>module_refs := module_refs s + 1\<rparr>"
  let ?inner = "case find (\<lambda>c. c_token (cons_mem s c) = p_token (prod_mem s p)) (consumers s) of
        None \<Rightarrow> Inr ?s1 | Some c \<Rightarrow> disconnect p c ?s1"
  have "\<exists>s2. ?inner = Inr s2"
  proof (cases "find (\<lambda>c. c_token (cons_mem s c) = p_token (prod_mem s p)) (consumers s)")
    case None
    then show ?thesis by simp
  next
    case (Some c)
    then have "c \<in> set (consumers s)" by (auto dest: find_in_set)
    then have "c_del_producer (cons_mem ?s1 c) \<noteq> None"
      using inv unfolding registry_inv_def by auto
    then show ?thesis using Some disconnect_total[of ?s1 c p] by simp
  qed
  then obtain s2 where i: "?inner = Inr s2" by blast
  then show ?thesis
    unfolding irq_bypass_unregister_producer_def try_module_get_def
    by (auto split: option.splits)
qed

lemma api_step_no_fault:
  assumes inv: "registry_inv s"
  shows "\<exists>s'. api_step c s = Inr s'"
proof (cases c)
  case (Register_producer p)
  then show ?thesis using register_producer_no_fault[OF inv, of p]
    unfolding api_step_def by auto
next
  case (Unregister_producer p)
  then show ?thesis using unregister_producer_no_fault[OF inv, of p]
    unfolding api_step_def by auto
next
  case (Register_consumer c)
  then show ?thesis using register_consumer_no_fault[of c s]
    unfolding api_step_def by auto
next
  case (Unregister_consumer c)
  then show ?thesis using unregister_consumer_no_fault[OF inv, of c]
    unfolding api_step_def by auto
qed

lemma run_no_fault: "registry_inv s \<Longrightarrow> \<exists>s'. run cs s = Inr s'"
proof (induction cs arbitrary: s)
  case Nil
  then show ?case by simp
next
  case (Cons c cs)
  from api_step_no_fault[OF Cons.prems, of c] obtain s1 where a: "api_step c s = Inr s1"
    by blast
  from Cons.IH[OF inv_api_step[OF Cons.prems a]] obtain s' where "run cs s1 = Inr s'" by blast
  then show ?case using a by simp
qed

text \<open>What a connect returns is the first non-zero add result in its log.\<close>

lemma connect_first_error:
  assumes c: "connect p c s = Inr (ret, s')"
  shows "\<exists>evs. logged s (Connect p c # evs) s' \<and> filter is_connect evs = []
     \<and> first_error (Connect p c # evs) = ret"
proof -
  from logged_connect[OF c] obtain q1 mid q2
    where l: "logged s (Connect p c # q1 @ mid @ q2) s'"
      and q1: "list_all quiet q1" and q2: "list_all quiet q2"
      and mid: "(p_add_consumer (prod_mem s p) \<noteq> None \<and> ret \<noteq> 0 \<and> mid = [ProdAddConsumer p c ret]
            \<and> q2 = [])
        \<or> mid = (if p_add_consumer (prod_mem s p) = None then [] else [ProdAddConsumer p c 0])
                 @ ConsAddProducer c p ret # rollback s p c ret"
    by blast
  have fm: "filter is_connect mid = []"
    using mid by (auto simp: filter_connect_rollback)
  have fc: "filter is_connect (q1 @ mid @ q2) = []"
    using fm by (simp add: quiet_filter_connect[OF q1] quiet_filter_connect[OF q2])
  have "first_error (mid @ q2) = ret"
    using mid q2 quiet_first_error[OF q2, of "[]"]
    by (auto simp: first_error_rollback)
  then have "first_error (Connect p c # q1 @ mid @ q2) = ret"
    using q1 by (simp add: quiet_first_error)
  then show ?thesis using l fc by blast
qed

text \<open>
  Registering a consumer again, or another consumer with a registered consumer's token:
  \<^verbatim>\<open>if (tmp->token == consumer->token || tmp == consumer)\<close>.
\<close>

lemma register_consumer_busy:
  assumes inv: "registry_inv s" and d: "d \<in> set (consumers s)"
    and dup: "c = d \<or> c_token (cons_mem s c) = c_token (cons_mem s d)"
    and cb: "c_add_producer (cons_mem s c) \<noteq> None" "c_del_producer (cons_mem s c) \<noteq> None"
  shows "irq_bypass_register_consumer c s = Inr (- EBUSY, s)"
proof -
  have tok: "c_token (cons_mem s c) \<noteq> 0" and live: "module_live s"
    using inv d dup unfolding registry_inv_def by auto
  have "find (\<lambda>tmp. c_token (cons_mem s tmp) = c_token (cons_mem s c) \<or> tmp = c) (consumers s)
      \<noteq> None"
    using d dup by (auto simp: find_None_iff)
  then show ?thesis using tok live cb
    unfolding irq_bypass_register_consumer_def try_module_get_def
    by (auto simp: module_put_get)
qed

section \<open>The claims\<close>

text \<open>
  Claim C1: every \<^verbatim>\<open>__connect\<close> ends with the restart (\<^verbatim>\<open>cons->start\<close>, then
  \<^verbatim>\<open>prod->start\<close>, each when present), also when the connect failed, and also when it was
  \<^verbatim>\<open>prod->add_consumer\<close> that failed.

  The code does not do this on the \<^verbatim>\<open>add_consumer\<close> failure path: \<^verbatim>\<open>if (ret) return ret;\<close>
  leaves the function right after both sides were stopped. Producer 2 and consumer 3 both have
  a start callback; the log of their connect ends with the failed \<^verbatim>\<open>add_consumer\<close> and
  holds no start, and so does the log of registering producer 2 and then consumer 3. (On the
  \<^verbatim>\<open>add_producer\<close> failure path of the same function the restart does run, as the log in
  \<open>example_rejected\<close> shows.)
\<close>

theorem C1_connect_early_return:
  "p_start (prod_mem example_manager 2) \<noteq> None \<and> c_start (cons_mem example_manager 3) \<noteq> None
   \<and> connect 2 3 example_manager =
       Inr (- 5, example_manager\<lparr>world := 3,
              trace := [Connect 2 3, ProdStop 2, ConsStop 3, ProdAddConsumer 2 3 (- 5)]\<rparr>)
   \<and> trace (reached (run [Register_producer 2, Register_consumer 3] example_manager)) =
       [Connect 2 3, ProdStop 2, ConsStop 3, ProdAddConsumer 2 3 (- 5)]"
  by (simp add: model_defs example_defs)

text \<open>
  Claim C2: when \<^verbatim>\<open>add_producer\<close> of the consumer fails during the connect that
  \<^verbatim>\<open>irq_bypass_register_consumer\<close> attempts with a registered producer of the same token,
  the call returns that error, the consumer list and the producer list are unchanged, and the
  module reference taken for the call has been given back.

  The call always returns (it never faults); whenever its log holds an \<^verbatim>\<open>add_producer\<close>
  invocation on this consumer with a non-zero result \<open>r\<close>, the call returned \<open>r\<close>, the lists
  and the reference count are as before, and the producer involved is a registered one with
  the consumer's token.
\<close>

theorem C2_register_consumer_add_producer_fails:
  "\<exists>ret s'. irq_bypass_register_consumer c s = Inr (ret, s')
     \<and> (\<forall>p r. ConsAddProducer c p r \<in> set (new_events s s') \<and> r \<noteq> 0
           \<longrightarrow> ret = r \<and> consumers s' = consumers s \<and> producers s' = producers s
               \<and> module_refs s' = module_refs s
               \<and> p \<in> set (producers s) \<and> p_token (prod_mem s p) = c_token (cons_mem s c))"
proof (cases rule: register_consumer_outcome[of c s])
  case (unchanged ret)
  then show ?thesis by (simp add: new_events_same)
next
  case unmatched
  then show ?thesis by (simp add: new_events_same)
next
  case (matched p0 ret s2)
  let ?s1 = "s\<lparr>module_refs := module_refs s + 1\<rparr>"
  let ?s' = "if ret \<noteq> 0 then module_put s2 else s2\<lparr>consumers := c # consumers s2\<rparr>"
  from logged_connect[OF matched(2)] obtain q1 mid q2
    where l: "logged ?s1 (Connect p0 c # q1 @ mid @ q2) s2"
      and q1: "list_all quiet q1" and q2: "list_all quiet q2"
      and mid: "(p_add_consumer (prod_mem ?s1 p0) \<noteq> None \<and> ret \<noteq> 0
            \<and> mid = [ProdAddConsumer p0 c ret] \<and> q2 = [])
        \<or> mid = (if p_add_consumer (prod_mem ?s1 p0) = None then [] else [ProdAddConsumer p0 c 0])
                 @ ConsAddProducer c p0 ret # rollback ?s1 p0 c ret"
    by blast
  have ev: "new_events s ?s' = Connect p0 c # q1 @ mid @ q2"
    using logged_trace[OF l] by (simp add: new_events_def module_put_def)
  note t = touchedD[OF logged_touched[OF l]]
  have p0: "p0 \<in> set (producers s)" "p_token (prod_mem s p0) = c_token (cons_mem s c)"
    using find_in_set[OF matched(1)] by auto
  have "ret = r \<and> consumers ?s' = consumers s \<and> producers ?s' = producers s
        \<and> module_refs ?s' = module_refs s
        \<and> p \<in> set (producers s) \<and> p_token (prod_mem s p) = c_token (cons_mem s c)"
    if "ConsAddProducer c p r \<in> set (new_events s ?s')" "r \<noteq> 0" for p r
  proof -
    have "ConsAddProducer c p r \<in> set mid"
      using that(1) unfolding ev by (simp add: quiet_no_wiring[OF q1] quiet_no_wiring[OF q2])
    then have "p = p0 \<and> r = ret"
      using mid by (auto simp: rollback_def split: if_splits)
    then show ?thesis using that(2) t p0 by (simp add: module_put_def)
  qed
  then show ?thesis using matched(3) by blast
qed

theorem C2_witness:
  "irq_bypass_register_consumer 4 example_registered = Inr (- 12, example_rejected)
   \<and> ConsAddProducer 4 1 (- 12) \<in> set (new_events example_registered example_rejected)
   \<and> consumers example_rejected = consumers example_registered
   \<and> producers example_rejected = producers example_registered
   \<and> module_refs example_rejected = module_refs example_registered
   \<and> 1 \<in> set (producers example_registered)"
  using C2_register_consumer_add_producer_fails[of 4 example_registered]
  by (simp add: model_defs example_defs)

text \<open>
  Claim C3: from an empty registry, registering producer \<open>P\<close> and then consumer \<open>C\<close> with
  the same token runs exactly one connect, on \<open>(P, C)\<close>, inside the second call, and
  afterwards the consumer list holds \<open>C\<close> and the producer list holds \<open>P\<close>.

  As stated this fails when the connect fails: the consumer is then not added (consumer 4 of
  the concrete registry, whose \<^verbatim>\<open>add_producer\<close> returns \<open>-12\<close>).
\<close>

theorem C3_counterexample:
  "registry_empty example_manager
   \<and> p_token (prod_mem example_manager 1) = c_token (cons_mem example_manager 4)
   \<and> fault_of (run [Register_producer 1, Register_consumer 4] example_manager) = None
   \<and> 4 \<notin> set (consumers (reached (run [Register_producer 1, Register_consumer 4] example_manager)))"
  by (simp add: model_defs example_defs)

text \<open>
  Claim C3, amended: for a token that is not \<^verbatim>\<open>NULL\<close>, a live module and a consumer with
  both mandatory callbacks, registering \<open>P\<close> into the empty registry succeeds without any
  callback or connect. Registering \<open>C\<close> then runs \<^verbatim>\<open>__connect\<close> on \<open>(P, C)\<close> once and
  returns what that connect returned, which is the first non-zero add result in the log of
  the call. The producer list is \<open>[P]\<close>. When the connect returned \<open>0\<close> the consumer list is
  \<open>[C]\<close> and two references are held; otherwise the consumer list is empty and only the
  producer's reference is held.
\<close>

theorem C3_register_producer_then_consumer:
  assumes "registry_empty s0" and "module_live s0"
    and "p_token (prod_mem s0 P) = T" and "c_token (cons_mem s0 C) = T" and "T \<noteq> 0"
    and "c_add_producer (cons_mem s0 C) \<noteq> None" and "c_del_producer (cons_mem s0 C) \<noteq> None"
  shows "\<exists>s1 ret sc s2.
      irq_bypass_register_producer P s0 = Inr (0, s1) \<and> new_events s0 s1 = []
      \<and> connect P C (s1\<lparr>module_refs := module_refs s1 + 1\<rparr>) = Inr (ret, sc)
      \<and> irq_bypass_register_consumer C s1 = Inr (ret, s2)
      \<and> new_events s1 s2 = new_events s1 sc
      \<and> ret = first_error (new_events s1 s2)
      \<and> filter is_connect (new_events s1 s2) = [Connect P C]
      \<and> producers s2 = [P]
      \<and> consumers s2 = (if ret = 0 then [C] else [])
      \<and> module_refs s2 = (if ret = 0 then 2 else 1)"
proof -
  let ?s1 = "s0\<lparr>module_refs := module_refs s0 + 1, producers := [P]\<rparr>"
  let ?s1' = "?s1\<lparr>module_refs := module_refs ?s1 + 1\<rparr>"
  have rp: "irq_bypass_register_producer P s0 = Inr (0, ?s1)"
    using assms unfolding irq_bypass_register_producer_def try_module_get_def list_add_def
      registry_empty_def by auto
  have ne: "new_events s0 ?s1 = []" by (simp add: new_events_same)
  have "\<exists>ret sc s2. connect P C ?s1' = Inr (ret, sc)
      \<and> irq_bypass_register_consumer C ?s1 = Inr (ret, s2)
      \<and> new_events ?s1 s2 = new_events ?s1 sc
      \<and> ret = first_error (new_events ?s1 s2)
      \<and> filter is_connect (new_events ?s1 s2) = [Connect P C]
      \<and> producers s2 = [P] \<and> consumers s2 = (if ret = 0 then [C] else [])
      \<and> module_refs s2 = (if ret = 0 then 2 else 1)"
  proof (cases rule: register_consumer_outcome[of C ?s1])
    case (unchanged ret)
    then show ?thesis using assms unfolding registry_empty_def by auto
  next
    case unmatched
    then show ?thesis using assms by auto
  next
    case (matched p ret sc)
    have p: "p = P" using matched(1) by (auto split: if_splits)
    let ?s' = "if ret \<noteq> 0 then module_put sc else sc\<lparr>consumers := C # consumers sc\<rparr>"
    have c: "connect P C ?s1' = Inr (ret, sc)" using matched(2) p by simp
    from connect_first_error[OF c] obtain evs
      where l: "logged ?s1' (Connect P C # evs) sc"
        and fc: "filter is_connect evs = []"
        and fe: "first_error (Connect P C # evs) = ret"
      by blast
    have ev: "new_events ?s1 ?s' = Connect P C # evs" "new_events ?s1 sc = Connect P C # evs"
      using logged_trace[OF l] by (simp_all add: new_events_def module_put_def)
    note t = touchedD[OF logged_touched[OF l]]
    have "producers ?s' = [P]" "consumers ?s' = (if ret = 0 then [C] else [])"
      "module_refs ?s' = (if ret = 0 then 2 else 1)"
      using t assms(1) unfolding registry_empty_def by (auto simp: module_put_def)
    moreover have "ret = first_error (new_events ?s1 ?s')" using fe ev by simp
    moreover have "filter is_connect (new_events ?s1 ?s') = [Connect P C]" using fc ev by simp
    moreover have "new_events ?s1 ?s' = new_events ?s1 sc" using ev by simp
    ultimately show ?thesis using matched(3) c by blast
  qed
  then show ?thesis using rp ne by blast
qed

theorem C3_witness:
  "registry_empty example_manager \<and> module_live example_manager
   \<and> p_token (prod_mem example_manager 1) = 7 \<and> c_token (cons_mem example_manager 3) = 7
   \<and> c_token (cons_mem example_manager 4) = 7
   \<and> c_add_producer (cons_mem example_manager 3) \<noteq> None
   \<and> c_del_producer (cons_mem example_manager 3) \<noteq> None
   \<and> c_add_producer (cons_mem example_manager 4) \<noteq> None
   \<and> c_del_producer (cons_mem example_manager 4) \<noteq> None
   \<and> irq_bypass_register_producer 1 example_manager = Inr (0, example_registered)
   \<and> irq_bypass_register_consumer 3 example_registered = Inr (0, example_connected)
   \<and> filter is_connect (new_events example_registered example_connected) = [Connect 1 3]
   \<and> first_error (new_events example_registered example_connected) = 0
   \<and> producers example_connected = [1] \<and> consumers example_connected = [3]
   \<and> module_refs example_connected = 2
   \<and> irq_bypass_register_consumer 4 example_registered = Inr (- 12, example_rejected)
   \<and> filter is_connect (new_events example_registered example_rejected) = [Connect 1 4]
   \<and> first_error (new_events example_registered example_rejected) = - 12
   \<and> producers example_rejected = [1] \<and> consumers example_rejected = []
   \<and> module_refs example_rejected = 1"
proof -
  have h: "registry_empty example_manager" "module_live example_manager"
    "p_token (prod_mem example_manager 1) = 7" by (simp_all add: example_defs)
  have h3: "c_token (cons_mem example_manager 3) = 7" "(7::nat) \<noteq> 0"
    "c_add_producer (cons_mem example_manager 3) \<noteq> None"
    "c_del_producer (cons_mem example_manager 3) \<noteq> None"
    by (simp_all add: example_defs)
  have h4: "c_token (cons_mem example_manager 4) = 7" "(7::nat) \<noteq> 0"
    "c_add_producer (cons_mem example_manager 4) \<noteq> None"
    "c_del_producer (cons_mem example_manager 4) \<noteq> None"
    by (simp_all add: example_defs)
  have a: "irq_bypass_register_producer 1 example_manager = Inr (0, example_registered)"
    by (simp add: model_defs example_defs)
  have b3: "irq_bypass_register_consumer 3 example_registered = Inr (0, example_connected)"
    by (simp add: model_defs example_defs)
  have b4: "irq_bypass_register_consumer 4 example_registered = Inr (- 12, example_rejected)"
    by (simp add: model_defs example_defs)
  from C3_register_producer_then_consumer[OF h h3]
  have r3: "filter is_connect (new_events example_registered example_connected) = [Connect 1 3]
     \<and> first_error (new_events example_registered example_connected) = 0
     \<and> producers example_connected = [1] \<and> consumers example_connected = [3]
     \<and> module_refs example_connected = 2"
    using a b3 by auto
  from C3_register_producer_then_consumer[OF h h4]
  have r4: "filter is_connect (new_events example_registered example_rejected) = [Connect 1 4]
     \<and> first_error (new_events example_registered example_rejected) = - 12
     \<and> producers example_rejected = [1] \<and> consumers example_rejected = []
     \<and> module_refs example_rejected = 1"
    using a b4 by auto
  show ?thesis using h h3 h4 a b3 b4 r3 r4 by simp
qed

text \<open>
  Claim C4: in \<^verbatim>\<open>__connect\<close>, when \<^verbatim>\<open>add_producer\<close> fails after \<^verbatim>\<open>add_consumer\<close> was called
  and succeeded, \<^verbatim>\<open>del_consumer\<close> (when present) is called; the function returns the first
  error among the add calls it made, and returns \<open>0\<close> iff every add call it made returned
  \<open>0\<close>. The consumer's \<^verbatim>\<open>add_producer\<close> is mandatory, hence the hypothesis; under it the
  call returns.
\<close>

theorem C4_connect_rollback_and_result:
  assumes "c_add_producer (cons_mem s c) \<noteq> None"
  shows "\<exists>ret s'. connect p c s = Inr (ret, s')
     \<and> (ProdAddConsumer p c 0 \<in> set (new_events s s')
          \<and> (\<exists>r. r \<noteq> 0 \<and> ConsAddProducer c p r \<in> set (new_events s s'))
          \<and> p_del_consumer (prod_mem s p) \<noteq> None
         \<longrightarrow> ProdDelConsumer p c \<in> set (new_events s s'))
     \<and> ret = first_error (new_events s s')
     \<and> (ret = 0 \<longleftrightarrow> (\<forall>e \<in> set (new_events s s'). \<forall>r. add_result e = Some r \<longrightarrow> r = 0))"
proof -
  obtain ret s' where c: "connect p c s = Inr (ret, s')"
    using connect_total[OF assms] by blast
  from logged_connect[OF c] obtain q1 mid q2
    where l: "logged s (Connect p c # q1 @ mid @ q2) s'"
      and q1: "list_all quiet q1" and q2: "list_all quiet q2"
      and mid: "(p_add_consumer (prod_mem s p) \<noteq> None \<and> ret \<noteq> 0 \<and> mid = [ProdAddConsumer p c ret]
            \<and> q2 = [])
        \<or> mid = (if p_add_consumer (prod_mem s p) = None then [] else [ProdAddConsumer p c 0])
                 @ ConsAddProducer c p ret # rollback s p c ret"
    by blast
  have ev: "new_events s s' = Connect p c # q1 @ mid @ q2"
    using l by (rule logged_new_events)
  have nq: "\<And>e. e \<in> set q1 \<or> e \<in> set q2 \<Longrightarrow> quiet e"
    using q1 q2 quiet_mem by blast
  have fe: "first_error (new_events s s') = first_error (mid @ q2)"
    unfolding ev using q1 by (simp add: quiet_first_error)
  have fe2: "first_error (mid @ q2) = ret"
    using mid q2 quiet_first_error[OF q2, of "[]"]
    by (auto simp: first_error_rollback)
  have rb: "ProdAddConsumer p c 0 \<in> set (new_events s s')
          \<and> (\<exists>r. r \<noteq> 0 \<and> ConsAddProducer c p r \<in> set (new_events s s'))
          \<and> p_del_consumer (prod_mem s p) \<noteq> None
         \<longrightarrow> ProdDelConsumer p c \<in> set (new_events s s')"
    unfolding ev using mid by (auto simp: rollback_def quiet_no_wiring[OF q1] quiet_no_wiring[OF q2])
  have r: "ret = first_error (new_events s s')" using fe fe2 by simp
  show ?thesis using c rb r first_error_zero_iff[of "new_events s s'"] by auto
qed

theorem C4_witness:
  "c_add_producer (cons_mem example_manager 4) \<noteq> None
   \<and> connect 1 4 example_manager =
       Inr (- 12, example_manager\<lparr>world := 7,
              trace := [Connect 1 4, ProdStop 1, ConsStop 4, ProdAddConsumer 1 4 0,
                        ConsAddProducer 4 1 (- 12), ProdDelConsumer 1 4, ConsStart 4,
                        ProdStart 1]\<rparr>)
   \<and> first_error [Connect 1 4, ProdStop 1, ConsStop 4, ProdAddConsumer 1 4 0,
                        ConsAddProducer 4 1 (- 12), ProdDelConsumer 1 4, ConsStart 4,
                        ProdStart 1] = - 12"
  using C4_connect_rollback_and_result[of example_manager 4 1]
  by (simp add: model_defs example_defs)

text \<open>
  Claim C5: in a registry reached by calls of the interface, registering a producer whose
  token is that of a registered producer returns \<open>-EBUSY\<close> and changes nothing: the result
  state is the state before, so the lists, the reference count, the outside world and the log
  are the same (no connect, no callback).
\<close>

theorem C5_register_producer_busy:
  assumes "registry_empty s0" and "run calls s0 = Inr s"
    and "q \<in> set (producers s)" and "p_token (prod_mem s p) = p_token (prod_mem s q)"
  shows "irq_bypass_register_producer p s = Inr (- EBUSY, s)"
proof -
  have inv: "registry_inv s" using inv_run[OF registry_inv_empty[OF assms(1)] assms(2)] .
  have tok: "p_token (prod_mem s p) \<noteq> 0" and live: "module_live s"
    using inv assms(3,4) unfolding registry_inv_def by auto
  have "find (\<lambda>tmp. p_token (prod_mem s tmp) = p_token (prod_mem s p)) (producers s) \<noteq> None"
    using assms(3,4) by (auto simp: find_None_iff)
  then show ?thesis using tok live
    unfolding irq_bypass_register_producer_def try_module_get_def
    by (auto simp: module_put_get)
qed

theorem C5_witness:
  "registry_empty example_manager
   \<and> run [Register_producer 1] example_manager = Inr example_registered
   \<and> 1 \<in> set (producers example_registered)
   \<and> p_token (prod_mem example_registered 2) = p_token (prod_mem example_registered 1)
   \<and> irq_bypass_register_producer 2 example_registered = Inr (- 16, example_registered)"
proof -
  have a: "registry_empty example_manager" by (simp add: example_defs)
  have b: "run [Register_producer 1] example_manager = Inr example_registered"
    by (simp add: model_defs example_defs)
  have c: "1 \<in> set (producers example_registered)" by (simp add: example_defs)
  have d: "p_token (prod_mem example_registered 2) = p_token (prod_mem example_registered 1)"
    by (simp add: example_defs)
  show ?thesis using a b c d C5_register_producer_busy[OF a b c d] by (simp add: EBUSY_def)
qed

text \<open>
  Claim C6: after every sequence of calls of the interface that starts from the empty
  registry, no descriptor is on its list twice, no two registered producers share a token, and
  no two registered consumers share a token; registering a consumer that is on the list, or
  one that carries the token of a consumer on the list, is refused with \<open>-EBUSY\<close> and changes
  nothing. (\<open>run calls s0 = Inr s\<close> says that the calls ended in \<open>s\<close>; by \<open>run_no_fault\<close>
  every sequence from the empty registry does end in some state.)
\<close>

theorem C6_registry_uniqueness:
  assumes "registry_empty s0" and "run calls s0 = Inr s"
  shows "distinct (producers s) \<and> distinct (consumers s)
     \<and> (\<forall>p \<in> set (producers s). \<forall>q \<in> set (producers s).
           p_token (prod_mem s p) = p_token (prod_mem s q) \<longrightarrow> p = q)
     \<and> (\<forall>c \<in> set (consumers s). \<forall>d \<in> set (consumers s).
           c_token (cons_mem s c) = c_token (cons_mem s d) \<longrightarrow> c = d)
     \<and> (\<forall>d \<in> set (consumers s). \<forall>c.
           (c = d \<or> c_token (cons_mem s c) = c_token (cons_mem s d))
           \<and> c_add_producer (cons_mem s c) \<noteq> None \<and> c_del_producer (cons_mem s c) \<noteq> None
           \<longrightarrow> irq_bypass_register_consumer c s = Inr (- EBUSY, s))"
proof -
  have inv: "registry_inv s" using inv_run[OF registry_inv_empty[OF assms(1)] assms(2)] .
  then have "inj_on (\<lambda>p. p_token (prod_mem s p)) (set (producers s))"
    and "inj_on (\<lambda>c. c_token (cons_mem s c)) (set (consumers s))"
    unfolding registry_inv_def by (simp_all add: distinct_map)
  then have u: "\<forall>p \<in> set (producers s). \<forall>q \<in> set (producers s).
           p_token (prod_mem s p) = p_token (prod_mem s q) \<longrightarrow> p = q"
     "\<forall>c \<in> set (consumers s). \<forall>d \<in> set (consumers s).
           c_token (cons_mem s c) = c_token (cons_mem s d) \<longrightarrow> c = d"
    unfolding inj_on_def by blast+
  have d: "distinct (producers s)" "distinct (consumers s)"
    using inv unfolding registry_inv_def by simp_all
  have b: "\<forall>d \<in> set (consumers s). \<forall>c.
           (c = d \<or> c_token (cons_mem s c) = c_token (cons_mem s d))
           \<and> c_add_producer (cons_mem s c) \<noteq> None \<and> c_del_producer (cons_mem s c) \<noteq> None
           \<longrightarrow> irq_bypass_register_consumer c s = Inr (- EBUSY, s)"
    using register_consumer_busy[OF inv] by blast
  show ?thesis using d u b by (intro conjI)
qed

theorem C6_witness:
  "registry_empty example_manager
   \<and> run [Register_producer 1, Register_consumer 3] example_manager = Inr example_connected
   \<and> distinct (producers example_connected) \<and> distinct (consumers example_connected)
   \<and> 3 \<in> set (consumers example_connected)
   \<and> c_token (cons_mem example_connected 4) = c_token (cons_mem example_connected 3)
   \<and> irq_bypass_register_consumer 3 example_connected = Inr (- 16, example_connected)
   \<and> irq_bypass_register_consumer 4 example_connected = Inr (- 16, example_connected)"
proof -
  have a: "registry_empty example_manager" by (simp add: example_defs)
  have b: "run [Register_producer 1, Register_consumer 3] example_manager = Inr example_connected"
    by (simp add: model_defs example_defs)
  have c: "3 \<in> set (consumers example_connected)"
    "c_token (cons_mem example_connected 4) = c_token (cons_mem example_connected 3)"
    "c_add_producer (cons_mem example_connected 3) \<noteq> None"
    "c_del_producer (cons_mem example_connected 3) \<noteq> None"
    "c_add_producer (cons_mem example_connected 4) \<noteq> None"
    "c_del_producer (cons_mem example_connected 4) \<noteq> None"
    by (simp_all add: example_defs)
  show ?thesis using a b c C6_registry_uniqueness[OF a b] by (auto simp: EBUSY_def)
qed

text \<open>
  Claim C7: unregistering an entry that is not registered is a no-op: no error, no callback,
  both lists unchanged.

  The code does not do this for producers. \<^verbatim>\<open>irq_bypass_unregister_producer\<close> looks for a
  registered producer with the argument's token (\<^verbatim>\<open>tmp->token != producer->token\<close>) and then
  works on its argument, where \<^verbatim>\<open>irq_bypass_unregister_consumer\<close> looks for the argument
  itself (\<^verbatim>\<open>tmp != consumer\<close>). Producer 2 was never registered but carries the token of the
  registered producer 1, which is connected to consumer 3: the call runs \<^verbatim>\<open>__disconnect\<close>
  on \<open>(2, 3)\<close> with all its callbacks and gives back a module reference, while producer 1
  stays on the list. The same call on the unregistered consumer 4, which carries the token of
  consumer 3, does nothing.
\<close>

theorem C7_unregister_producer_stranger:
  "run [Register_producer 1, Register_consumer 3] example_manager = Inr example_connected
   \<and> 2 \<notin> set (producers example_connected)
   \<and> irq_bypass_unregister_producer 2 example_connected = Inr example_stranger
   \<and> new_events example_connected example_stranger =
       [Disconnect 2 3, ProdStop 2, ConsStop 3, ConsDelProducer 3 2, ProdDelConsumer 2 3,
        ConsStart 3, ProdStart 2]
   \<and> producers example_stranger = [1]
   \<and> module_refs example_stranger = module_refs example_connected - 1
   \<and> 4 \<notin> set (consumers example_connected)
   \<and> irq_bypass_unregister_consumer 4 example_connected = Inr example_connected"
  by (simp add: model_defs example_defs)

text \<open>
  Claim C8: \<^verbatim>\<open>irq_bypass_register_consumer\<close> returns \<open>-EINVAL\<close> and changes nothing when the
  consumer's token is \<^verbatim>\<open>NULL\<close> or one of its two mandatory callbacks is missing.
\<close>

theorem C8_register_consumer_invalid:
  assumes "c_token (cons_mem s c) = 0 \<or> c_add_producer (cons_mem s c) = None
    \<or> c_del_producer (cons_mem s c) = None"
  shows "irq_bypass_register_consumer c s = Inr (- EINVAL, s)"
  using assms unfolding irq_bypass_register_consumer_def by auto

theorem C8_witness:
  "c_del_producer (cons_mem example_manager 5) = None
   \<and> irq_bypass_register_consumer 5 example_manager = Inr (- 22, example_manager)"
  using C8_register_consumer_invalid[of example_manager 5]
  by (simp add: example_defs EINVAL_def)

text \<open>
  Claim C9: after every completed call the module references held through the registry are
  as many as the registered entries: one per registered producer and one per registered
  consumer.

  The code breaks this in \<^verbatim>\<open>irq_bypass_unregister_producer\<close>, by the slip of claim C7: once
  the search by token has found an entry, the function gives back the entry's reference and
  its own, but \<^verbatim>\<open>list_del\<close> is applied to the argument, not to the entry found. With
  producer 1 and consumer 3 registered, unregistering the never-registered producer 2 returns
  with both still on their lists and one reference held for the two of them. Unregistering
  the registered producer 1 instead keeps the count right: one entry, one reference.
\<close>

theorem C9_reference_dropped_entry_kept:
  "registry_empty example_manager
   \<and> run [Register_producer 1, Register_consumer 3, Unregister_producer 2] example_manager
       = Inr example_stranger
   \<and> producers example_stranger = [1] \<and> consumers example_stranger = [3]
   \<and> module_refs example_stranger = 1
   \<and> fault_of (run [Register_producer 1, Register_consumer 3, Unregister_producer 1]
         example_manager) = None
   \<and> producers (reached (run [Register_producer 1, Register_consumer 3, Unregister_producer 1]
         example_manager)) = []
   \<and> consumers (reached (run [Register_producer 1, Register_consumer 3, Unregister_producer 1]
         example_manager)) = [3]
   \<and> module_refs (reached (run [Register_producer 1, Register_consumer 3, Unregister_producer 1]
         example_manager)) = 1"
  by (simp add: model_defs example_defs)

text \<open>
  Claim C10: \<^verbatim>\<open>irq_bypass_unregister_consumer\<close> selects by object identity and
  \<^verbatim>\<open>irq_bypass_unregister_producer\<close> by token. In a registry reached by calls of the
  interface:
  \<^item> for a registered consumer \<open>c\<close> and another consumer object \<open>c'\<close> with the same token,
    unregistering \<open>c'\<close> returns the state it was called in (nothing removed, no callback);
  \<^item> for a registered producer \<open>p\<close> and another producer object \<open>p'\<close> with the same token,
    unregistering \<open>p'\<close> returns, having treated \<open>p'\<close> as found: when a consumer \<open>c\<close> with that
    token is registered the log holds \<^verbatim>\<open>__disconnect\<close> on \<open>(p', c)\<close> with
    \<^verbatim>\<open>del_producer\<close> and, when present, \<^verbatim>\<open>del_consumer\<close>; a module reference is given back;
    both lists are as before;
  \<^item> for a producer whose token no registered producer carries, unregistering returns the
    state it was called in.
\<close>

theorem C10_unregister_asymmetry:
  assumes "registry_empty s0" and "run calls s0 = Inr s"
  shows "(\<forall>c \<in> set (consumers s). \<forall>c'.
            c' \<noteq> c \<and> c_token (cons_mem s c') = c_token (cons_mem s c)
            \<longrightarrow> irq_bypass_unregister_consumer c' s = Inr s)
       \<and> (\<forall>p \<in> set (producers s). \<forall>p'.
            p' \<noteq> p \<and> p_token (prod_mem s p') = p_token (prod_mem s p)
            \<longrightarrow> (\<exists>s'. irq_bypass_unregister_producer p' s = Inr s'
                  \<and> producers s' = producers s \<and> consumers s' = consumers s
                  \<and> module_refs s' = module_refs s - 1
                  \<and> wiring (new_events s s') =
                      (case find (\<lambda>c. c_token (cons_mem s c) = p_token (prod_mem s p'))
                              (consumers s) of
                         None \<Rightarrow> []
                       | Some c \<Rightarrow> Disconnect p' c # ConsDelProducer c p'
                           # (if p_del_consumer (prod_mem s p') = None then []
                              else [ProdDelConsumer p' c]))))
       \<and> (\<forall>p'. p_token (prod_mem s p') \<notin> (\<lambda>q. p_token (prod_mem s q)) ` set (producers s)
            \<longrightarrow> irq_bypass_unregister_producer p' s = Inr s)"
proof -
  have inv: "registry_inv s" using inv_run[OF registry_inv_empty[OF assms(1)] assms(2)] .
  have dm: "distinct (map (\<lambda>x. c_token (cons_mem s x)) (consumers s))"
    using inv unfolding registry_inv_def by simp
  have cons: "irq_bypass_unregister_consumer c' s = Inr s"
    if "c \<in> set (consumers s)" "c' \<noteq> c" "c_token (cons_mem s c') = c_token (cons_mem s c)"
    for c c'
  proof -
    have "c' \<notin> set (consumers s)"
    proof
      assume "c' \<in> set (consumers s)"
      then have "find (\<lambda>x. c_token (cons_mem s x) = c_token (cons_mem s c')) (consumers s) = Some c'"
        by (rule find_unique[OF dm])
      moreover have "find (\<lambda>x. c_token (cons_mem s x) = c_token (cons_mem s c')) (consumers s) = Some c"
        using find_unique[OF dm that(1)] that(3) by simp
      ultimately show False using that(2) by simp
    qed
    then show ?thesis by (rule unregister_consumer_absent)
  qed
  have a: "\<forall>c \<in> set (consumers s). \<forall>c'.
            c' \<noteq> c \<and> c_token (cons_mem s c') = c_token (cons_mem s c)
            \<longrightarrow> irq_bypass_unregister_consumer c' s = Inr s"
    using cons by blast
  have b: "\<forall>p \<in> set (producers s). \<forall>p'.
            p' \<noteq> p \<and> p_token (prod_mem s p') = p_token (prod_mem s p)
            \<longrightarrow> (\<exists>s'. irq_bypass_unregister_producer p' s = Inr s'
                  \<and> producers s' = producers s \<and> consumers s' = consumers s
                  \<and> module_refs s' = module_refs s - 1
                  \<and> wiring (new_events s s') =
                      (case find (\<lambda>c. c_token (cons_mem s c) = p_token (prod_mem s p'))
                              (consumers s) of
                         None \<Rightarrow> []
                       | Some c \<Rightarrow> Disconnect p' c # ConsDelProducer c p'
                           # (if p_del_consumer (prod_mem s p') = None then []
                              else [ProdDelConsumer p' c])))"
    using unregister_producer_stranger[OF inv] by blast
  have c: "\<forall>p'. p_token (prod_mem s p') \<notin> (\<lambda>q. p_token (prod_mem s q)) ` set (producers s)
            \<longrightarrow> irq_bypass_unregister_producer p' s = Inr s"
    using unregister_producer_no_token by blast
  show ?thesis using a b c by (intro conjI)
qed

theorem C10_witness:
  "registry_empty example_manager
   \<and> run [Register_producer 1, Register_consumer 3] example_manager = Inr example_connected
   \<and> 3 \<in> set (consumers example_connected) \<and> 4 \<noteq> (3::nat)
   \<and> c_token (cons_mem example_connected 4) = c_token (cons_mem example_connected 3)
   \<and> irq_bypass_unregister_consumer 4 example_connected = Inr example_connected
   \<and> 1 \<in> set (producers example_connected) \<and> 2 \<noteq> (1::nat)
   \<and> p_token (prod_mem example_connected 2) = p_token (prod_mem example_connected 1)
   \<and> irq_bypass_unregister_producer 2 example_connected = Inr example_stranger
   \<and> wiring (new_events example_connected example_stranger) =
       [Disconnect 2 3, ConsDelProducer 3 2, ProdDelConsumer 2 3]
   \<and> module_refs example_stranger = module_refs example_connected - 1
   \<and> p_token (prod_mem example_connected 8)
        \<notin> (\<lambda>q. p_token (prod_mem example_connected q)) ` set (producers example_connected)
   \<and> irq_bypass_unregister_producer 8 example_connected = Inr example_connected"
proof -
  have a: "registry_empty example_manager" by (simp add: example_defs)
  have b: "run [Register_producer 1, Register_consumer 3] example_manager = Inr example_connected"
    by (simp add: model_defs example_defs)
  have c: "3 \<in> set (consumers example_connected)" "1 \<in> set (producers example_connected)"
    "c_token (cons_mem example_connected 4) = c_token (cons_mem example_connected 3)"
    "p_token (prod_mem example_connected 2) = p_token (prod_mem example_connected 1)"
    "p_token (prod_mem example_connected 8)
        \<notin> (\<lambda>q. p_token (prod_mem example_connected q)) ` set (producers example_connected)"
    by (simp_all add: example_defs)
  have d: "irq_bypass_unregister_producer 2 example_connected = Inr example_stranger"
    "wiring (new_events example_connected example_stranger) =
       [Disconnect 2 3, ConsDelProducer 3 2, ProdDelConsumer 2 3]"
    "module_refs example_stranger = module_refs example_connected - 1"
    by (simp_all add: model_defs example_defs)
  from C10_unregister_asymmetry[OF a b]
  have e: "irq_bypass_unregister_consumer 4 example_connected = Inr example_connected"
    "irq_bypass_unregister_producer 8 example_connected = Inr example_connected"
    using c by auto
  show ?thesis using a b c d e by simp
qed

end
